theory Spec2Isabelle
  imports Complex_Main
begin

section \<open>Tensors and the numeric operations of the tensor library\<close>

text \<open>
  The transforms of \<^verbatim>\<open>pymc3/distributions/transforms.py\<close> build expressions over
  tensors.  The embedding covers tensors of rank 0 and rank 1 whose entries are real
  numbers; every numeric operation (\<^verbatim>\<open>exp\<close>, \<^verbatim>\<open>log\<close>,
  \<^verbatim>\<open>sigmoid\<close>, \<^verbatim>\<open>arctan2\<close>, ...) denotes the mathematical
  function on the reals.  Rounding is treated apart, in the section on binary64
  arithmetic, which evaluates the sigmoid as the machine does; infinities and
  not-a-number values are outside the model.  Exceptions raised by the tensor library
  are values of type \<open>error\<close>.
\<close>

datatype tensor = Scalar real | Vector "real list"

datatype error = NotImplementedError | IndexError | TypeError | ValueError

type_synonym 'a result = "error + 'a"

fun entries :: "tensor \<Rightarrow> real list" where
  "entries (Scalar a) = [a]"
| "entries (Vector v) = v"

text \<open>An operation applied to every entry (\<^verbatim>\<open>tt.exp\<close>, \<^verbatim>\<open>tt.log\<close>, ...,
  and arithmetic with Python scalars, which broadcasts).\<close>

fun tmap :: "(real \<Rightarrow> real) \<Rightarrow> tensor \<Rightarrow> tensor" where
  "tmap f (Scalar a) = Scalar (f a)"
| "tmap f (Vector v) = Vector (map f v)"

text \<open>\<^verbatim>\<open>tt.sum(x)\<close> without an axis: the sum of all entries.\<close>

fun tsum :: "tensor \<Rightarrow> real" where
  "tsum (Scalar a) = a"
| "tsum (Vector v) = sum_list v"

text \<open>\<^verbatim>\<open>tt.reshape(g, x.shape)\<close> of a flat vector \<open>g\<close>: the entries of \<open>g\<close> in
  the shape of \<open>x\<close>; the sizes must agree.\<close>

fun reshape :: "real list \<Rightarrow> tensor \<Rightarrow> tensor result" where
  "reshape g (Scalar a) = (case g of [d] \<Rightarrow> Inr (Scalar d) | _ \<Rightarrow> Inl ValueError)"
| "reshape g (Vector v) = (if length g = length v then Inr (Vector g) else Inl ValueError)"

text \<open>The shape of a tensor (\<^verbatim>\<open>x.shape\<close>) and its rank (\<^verbatim>\<open>x.ndim\<close>).\<close>

fun tshape :: "tensor \<Rightarrow> nat list" where
  "tshape (Scalar a) = []"
| "tshape (Vector v) = [length v]"

fun rank :: "tensor \<Rightarrow> nat" where
  "rank (Scalar a) = 0"
| "rank (Vector v) = 1"

text \<open>Addition of two tensors, with broadcasting: a scalar is added to every entry of a
  vector, two vectors of one length are added entry by entry, and a vector of length
  one is added to every entry of the other vector.  Two vectors of different lengths,
  neither of length one, raise \<^verbatim>\<open>ValueError\<close>.\<close>

fun tplus :: "tensor \<Rightarrow> tensor \<Rightarrow> tensor result" where
  "tplus (Scalar a) (Scalar b) = Inr (Scalar (a + b))"
| "tplus (Scalar a) (Vector v) = Inr (Vector (map (\<lambda>t. a + t) v))"
| "tplus (Vector u) (Scalar b) = Inr (Vector (map (\<lambda>t. t + b) u))"
| "tplus (Vector u) (Vector v) =
     (if length u = length v then Inr (Vector (map2 (+) u v))
      else if length u = 1 then Inr (Vector (map (\<lambda>t. hd u + t) v))
      else if length v = 1 then Inr (Vector (map (\<lambda>t. t + hd v) u))
      else Inl ValueError)"

text \<open>\<^verbatim>\<open>tt.extra_ops.cumsum\<close> and \<^verbatim>\<open>tt.extra_ops.cumprod\<close> along axis 0:
  running sums and running products.\<close>

fun cumsum_from :: "real \<Rightarrow> real list \<Rightarrow> real list" where
  "cumsum_from acc [] = []"
| "cumsum_from acc (x # xs) = (acc + x) # cumsum_from (acc + x) xs"

definition cumsum :: "real list \<Rightarrow> real list" where
  "cumsum xs = cumsum_from 0 xs"

fun cumprod_from :: "real \<Rightarrow> real list \<Rightarrow> real list" where
  "cumprod_from acc [] = []"
| "cumprod_from acc (x # xs) = (acc * x) # cumprod_from (acc * x) xs"

definition cumprod :: "real list \<Rightarrow> real list" where
  "cumprod xs = cumprod_from 1 xs"

text \<open>\<^verbatim>\<open>tt.nnet.sigmoid\<close>, over the reals (\<open>sigmoid_float64\<close> below is the same
  expression evaluated in binary64).\<close>

definition sigmoid :: "real \<Rightarrow> real" where
  "sigmoid t = 1 / (1 + exp (- t))"

text \<open>\<^verbatim>\<open>tt.arctan2(y, x)\<close>: the angle of the point \<open>(x, y)\<close>, by quadrant.\<close>

definition arctan2 :: "real \<Rightarrow> real \<Rightarrow> real" where
  "arctan2 y x =
     (if 0 < x then arctan (y / x)
      else if x < 0 then (if 0 \<le> y then arctan (y / x) + pi else arctan (y / x) - pi)
      else if 0 < y then pi / 2
      else if y < 0 then - (pi / 2)
      else 0)"

text \<open>Sequencing of computations that may raise: the first exception wins.\<close>

fun bind_result :: "'a result \<Rightarrow> ('a \<Rightarrow> 'b result) \<Rightarrow> 'b result" where
  "bind_result (Inl e) f = Inl e"
| "bind_result (Inr v) f = f v"

section \<open>The transform abstraction\<close>

text \<open>Class \<^verbatim>\<open>Transform\<close>: a name and the three methods.  A method of the base
  class raises \<^verbatim>\<open>NotImplementedError\<close>.\<close>

record Transform =
  name :: string
  forward :: "tensor \<Rightarrow> tensor result"
  backward :: "tensor \<Rightarrow> tensor result"
  jacobian_det :: "tensor \<Rightarrow> tensor result"

definition Transform_base :: Transform where
  "Transform_base =
     \<lparr>name = [],
      forward = (\<lambda>x. Inl NotImplementedError),
      backward = (\<lambda>z. Inl NotImplementedError),
      jacobian_det = (\<lambda>x. Inl NotImplementedError)\<rparr>"

definition Transform_str :: "Transform \<Rightarrow> string" where
  "Transform_str t = name t @ '' transform''"

subsection \<open>The automatic-differentiation engine\<close>

text \<open>
  Modelled from the spec: the differentiation engine \<^verbatim>\<open>gradient\<close>, imported from
  \<^verbatim>\<open>pymc3.theanof\<close>, whose code is not among the sources.  The specification
  gives its interface as "compute the derivative of a scalar output with respect to a
  tensor input", returning one derivative per entry of the input.  The engine is a
  parameter of every definition that calls it: \<open>gradient f x\<close> is the flat vector it
  returns for the scalar cost \<open>f\<close> differentiated with respect to the tensor \<open>x\<close>.
  Its contract is \<open>differentiates\<close>: one entry per entry of \<open>x\<close>, each the partial
  derivative of the cost in that entry.
\<close>

type_synonym autodiff = "(tensor \<Rightarrow> real) \<Rightarrow> tensor \<Rightarrow> real list"

fun tupdate :: "tensor \<Rightarrow> nat \<Rightarrow> real \<Rightarrow> tensor" where
  "tupdate (Scalar a) i t = Scalar t"
| "tupdate (Vector v) i t = Vector (v[i := t])"

definition differentiates :: "autodiff \<Rightarrow> (tensor \<Rightarrow> real) \<Rightarrow> tensor \<Rightarrow> bool" where
  "differentiates gradient f x \<longleftrightarrow>
     length (gradient f x) = length (entries x) \<and>
     (\<forall>i < length (entries x).
        ((\<lambda>t. f (tupdate x i t)) has_real_derivative (gradient f x ! i)) (at (entries x ! i)))"

text \<open>\<^verbatim>\<open>ElemwiseTransform.jacobian_det\<close>: the gradient of \<^verbatim>\<open>sum(backward(x))\<close>
  in the shape of \<open>x\<close>, then the logarithm of the absolute value of every entry.\<close>

definition ElemwiseTransform_jacobian_det ::
    "autodiff \<Rightarrow> (tensor \<Rightarrow> tensor) \<Rightarrow> tensor \<Rightarrow> tensor result" where
  "ElemwiseTransform_jacobian_det gradient backward_fn x =
     bind_result (reshape (gradient (\<lambda>v. tsum (backward_fn v)) x) x)
       (\<lambda>grad. Inr (tmap (\<lambda>g. ln \<bar>g\<bar>) grad))"

section \<open>The transformed distribution\<close>

text \<open>The base distribution is an external collaborator: a log-density and a default
  value, each of which may raise.\<close>

record Distribution =
  logp :: "tensor \<Rightarrow> tensor result"
  default' :: "tensor result"

record TransformedDistribution =
  dist' :: Distribution
  transform_used :: Transform
  shape :: "nat list"
  testval :: tensor

text \<open>
  The constructor calls two pieces of code that are not among the sources, and both
  are parameters of its definition.  \<^verbatim>\<open>FreeRV(name='v', distribution=dist)\<close> (class
  \<^verbatim>\<open>FreeRV\<close> of \<^verbatim>\<open>pymc3.model\<close>) creates a free variable of the distribution; the
  variable is represented by the value it carries, and creating it may raise, since it
  evaluates the distribution on the new variable.  \<^verbatim>\<open>Distribution.__init__\<close> (the
  initialiser of the base class) receives the shape of \<^verbatim>\<open>v\<close> and the initial value,
  and may raise.

  The constructor computes the initial value \<^verbatim>\<open>forward(dist.default())\<close>, stores
  the distribution and the transform, applies \<^verbatim>\<open>forward\<close> to a free variable of the
  distribution to read off the shape, and calls the initialiser of the base class.  The
  first exception raised on the way is the result.
\<close>

type_synonym free_rv = "Distribution \<Rightarrow> tensor result"

type_synonym base_init = "nat list \<Rightarrow> tensor \<Rightarrow> unit result"

definition TransformedDistribution_init ::
    "free_rv \<Rightarrow> base_init \<Rightarrow> Distribution \<Rightarrow> Transform \<Rightarrow> TransformedDistribution result" where
  "TransformedDistribution_init FreeRV Distribution_init d t =
     bind_result (default' d) (\<lambda>x0.
     bind_result (forward t x0) (\<lambda>tv.
     bind_result (FreeRV d) (\<lambda>fv.
     bind_result (forward t fv) (\<lambda>v.
     bind_result (Distribution_init (tshape v) tv) (\<lambda>u.
       Inr \<lparr>dist' = d, transform_used = t, shape = tshape v, testval = tv\<rparr>)))))"

definition TransformedDistribution_logp ::
    "TransformedDistribution \<Rightarrow> tensor \<Rightarrow> tensor result" where
  "TransformedDistribution_logp self x =
     bind_result (backward (transform_used self) x) (\<lambda>bx.
     bind_result (logp (dist' self) bx) (\<lambda>l.
     bind_result (jacobian_det (transform_used self) x) (\<lambda>j.
       tplus l j)))"

section \<open>The catalogue of transforms\<close>

subsection \<open>Log\<close>

definition Log_backward :: "tensor \<Rightarrow> tensor" where
  "Log_backward x = tmap exp x"

definition Log_forward :: "tensor \<Rightarrow> tensor" where
  "Log_forward x = tmap ln x"

definition Log :: "autodiff \<Rightarrow> Transform" where
  "Log gradient =
     \<lparr>name = ''log'',
      forward = (\<lambda>x. Inr (Log_forward x)),
      backward = (\<lambda>x. Inr (Log_backward x)),
      jacobian_det = ElemwiseTransform_jacobian_det gradient Log_backward\<rparr>"

subsection \<open>LogOdds\<close>

definition inverse_logit :: "tensor \<Rightarrow> tensor" where
  "inverse_logit x = tmap sigmoid x"

definition logit :: "tensor \<Rightarrow> tensor" where
  "logit x = tmap (\<lambda>t. ln (t / (1 - t))) x"

definition LogOdds_backward :: "tensor \<Rightarrow> tensor" where
  "LogOdds_backward x = inverse_logit x"

definition LogOdds_forward :: "tensor \<Rightarrow> tensor" where
  "LogOdds_forward x = logit x"

definition LogOdds :: "autodiff \<Rightarrow> Transform" where
  "LogOdds gradient =
     \<lparr>name = ''logodds'',
      forward = (\<lambda>x. Inr (LogOdds_forward x)),
      backward = (\<lambda>x. Inr (LogOdds_backward x)),
      jacobian_det = ElemwiseTransform_jacobian_det gradient LogOdds_backward\<rparr>"

subsection \<open>Interval\<close>

text \<open>The bounds \<^verbatim>\<open>self.a\<close> and \<^verbatim>\<open>self.b\<close> set by the constructor are the
  first two arguments.\<close>

definition Interval_backward :: "real \<Rightarrow> real \<Rightarrow> tensor \<Rightarrow> tensor" where
  "Interval_backward a b x = tmap (\<lambda>t. (b - a) * exp t / (1 + exp t) + a) x"

definition Interval_forward :: "real \<Rightarrow> real \<Rightarrow> tensor \<Rightarrow> tensor" where
  "Interval_forward a b x = tmap (\<lambda>t. ln ((t - a) / (b - t))) x"

definition Interval :: "real \<Rightarrow> real \<Rightarrow> autodiff \<Rightarrow> Transform" where
  "Interval a b gradient =
     \<lparr>name = ''interval'',
      forward = (\<lambda>x. Inr (Interval_forward a b x)),
      backward = (\<lambda>x. Inr (Interval_backward a b x)),
      jacobian_det = ElemwiseTransform_jacobian_det gradient (Interval_backward a b)\<rparr>"

subsection \<open>SumTo1\<close>

text \<open>Slicing a rank-0 tensor raises \<^verbatim>\<open>IndexError\<close>; joining rank-0 tensors
  raises \<^verbatim>\<open>TypeError\<close>.\<close>

fun SumTo1_backward :: "tensor \<Rightarrow> tensor result" where
  "SumTo1_backward (Scalar a) = Inl TypeError"
| "SumTo1_backward (Vector y) = Inr (Vector (y @ [1 - sum_list y]))"

fun SumTo1_forward :: "tensor \<Rightarrow> tensor result" where
  "SumTo1_forward (Scalar a) = Inl IndexError"
| "SumTo1_forward (Vector x) = Inr (Vector (butlast x))"

definition SumTo1_jacobian_det :: "tensor \<Rightarrow> tensor" where
  "SumTo1_jacobian_det x = Scalar 0"

definition SumTo1 :: Transform where
  "SumTo1 =
     \<lparr>name = ''sumto1'',
      forward = SumTo1_forward,
      backward = SumTo1_backward,
      jacobian_det = (\<lambda>x. Inr (SumTo1_jacobian_det x))\<rparr>"

subsection \<open>StickBreaking\<close>

text \<open>\<^verbatim>\<open>eq_share = - tt.log(Km1 - k)\<close> for \<^verbatim>\<open>k = tt.arange(Km1)\<close>.\<close>

definition eq_share :: "nat \<Rightarrow> real list" where
  "eq_share Km1 = map (\<lambda>k. - ln (real_of_int (int Km1 - int k))) [0..<Km1]"

text \<open>\<^verbatim>\<open>tt.ones(y[:1].shape)\<close>: as many ones as \<^verbatim>\<open>y[:1]\<close> has entries.\<close>

definition ones_like_head :: "real list \<Rightarrow> real list" where
  "ones_like_head y = replicate (length (take 1 y)) 1"

fun StickBreaking_forward :: "tensor \<Rightarrow> tensor result" where
  "StickBreaking_forward (Scalar a) = Inl IndexError"
| "StickBreaking_forward (Vector x) =
     (if x = [] then Inl IndexError
      else
        let x0 = butlast x;
            s = map (\<lambda>c. c + last x) (rev (cumsum (rev x0)));
            z = map2 (/) x0 s;
            Km1 = length x - 1;
            y = map2 (-) (entries (logit (Vector z))) (eq_share Km1)
        in Inr (Vector y))"

fun StickBreaking_backward :: "tensor \<Rightarrow> tensor result" where
  "StickBreaking_backward (Scalar a) = Inl IndexError"
| "StickBreaking_backward (Vector y) =
     (let Km1 = length y;
          z = entries (inverse_logit (Vector (map2 (+) y (eq_share Km1))));
          yl = z @ ones_like_head y;
          yu = ones_like_head y @ map (\<lambda>t. 1 - t) z;
          S = cumprod yu;
          x = map2 (*) S yl
      in Inr (Vector x))"

fun StickBreaking_jacobian_det :: "tensor \<Rightarrow> tensor result" where
  "StickBreaking_jacobian_det (Scalar a) = Inl IndexError"
| "StickBreaking_jacobian_det (Vector y) =
     (let Km1 = length y;
          yl = map2 (+) y (eq_share Km1);
          yu = ones_like_head y @ map (\<lambda>t. 1 - t) (entries (inverse_logit (Vector yl)));
          S = cumprod yu
      in Inr (Scalar (sum_list
           (map2 (-) (map2 (-) (map ln (butlast S)) (map (\<lambda>t. ln (1 + exp t)) yl))
                     (map (\<lambda>t. ln (1 + exp (- t))) yl)))))"

definition StickBreaking :: Transform where
  "StickBreaking =
     \<lparr>name = ''stickbreaking'',
      forward = StickBreaking_forward,
      backward = StickBreaking_backward,
      jacobian_det = StickBreaking_jacobian_det\<rparr>"

subsection \<open>Circular\<close>

definition Circular_backward :: "tensor \<Rightarrow> tensor" where
  "Circular_backward y = tmap (\<lambda>t. arctan2 (sin t) (cos t)) y"

definition Circular_forward :: "tensor \<Rightarrow> tensor" where
  "Circular_forward x = x"

definition Circular :: "autodiff \<Rightarrow> Transform" where
  "Circular gradient =
     \<lparr>name = ''circular'',
      forward = (\<lambda>x. Inr (Circular_forward x)),
      backward = (\<lambda>y. Inr (Circular_backward y)),
      jacobian_det = ElemwiseTransform_jacobian_det gradient Circular_backward\<rparr>"

section \<open>Binary64 arithmetic\<close>






section \<open>Closed forms and domains named by the specification\<close>

text \<open>The sum of two tensors, entry by entry: two tensors can be added when they have
  the same number of entries or one of them has a single entry, which then stands for
  every entry.\<close>

definition broadcastable :: "tensor \<Rightarrow> tensor \<Rightarrow> bool" where
  "broadcastable l j \<longleftrightarrow>
     length (entries l) = length (entries j) \<or> length (entries l) = 1 \<or> length (entries j) = 1"

definition broadcast_entry :: "tensor \<Rightarrow> nat \<Rightarrow> real" where
  "broadcast_entry x i = (if length (entries x) = 1 then entries x ! 0 else entries x ! i)"

text \<open>A property of every entry of a tensor.\<close>

definition all_entries :: "(real \<Rightarrow> bool) \<Rightarrow> tensor \<Rightarrow> bool" where
  "all_entries P x = list_all P (entries x)"

text \<open>The interior of the simplex: every coordinate strictly positive, the
  coordinates summing to one.\<close>

definition simplex_interior :: "real list \<Rightarrow> bool" where
  "simplex_interior x \<longleftrightarrow> list_all (\<lambda>t. 0 < t) x \<and> sum_list x = 1"

text \<open>The stick-breaking Jacobian as the specification writes it, for a vector \<open>y\<close>
  of length \<open>K - 1\<close>: \<open>z'\<^sub>k = y\<^sub>k - log (K - 1 - k)\<close>, \<open>S\<^sub>k\<close> the product of the
  remaining-stick factors \<open>1 - sigmoid z'\<^sub>j\<close> for \<open>j < k\<close>, and the sum over
  \<open>k = 0, \<dots>, K - 2\<close>.\<close>

definition stick_logit :: "real list \<Rightarrow> nat \<Rightarrow> real" where
  "stick_logit y k = y ! k - ln (real (length y - k))"

definition stick_remaining :: "real list \<Rightarrow> nat \<Rightarrow> real" where
  "stick_remaining y k = (\<Prod>j<k. 1 - sigmoid (stick_logit y j))"

definition StickBreaking_jacobian_closed_form :: "real list \<Rightarrow> real" where
  "StickBreaking_jacobian_closed_form y =
     (\<Sum>k<length y. ln (stick_remaining y k) - ln (1 + exp (stick_logit y k))
                      - ln (1 + exp (- stick_logit y k)))"

text \<open>The analytic derivatives of the backward maps of \<^verbatim>\<open>LogOdds\<close> and
  \<^verbatim>\<open>Interval\<close> at a point.\<close>

definition LogOdds_backward_deriv :: "real \<Rightarrow> real" where
  "LogOdds_backward_deriv t = sigmoid t * (1 - sigmoid t)"

definition Interval_backward_deriv :: "real \<Rightarrow> real \<Rightarrow> real \<Rightarrow> real" where
  "Interval_backward_deriv a b t = (b - a) * exp t / (1 + exp t)\<^sup>2"

text \<open>The fraction of the remaining stick taken at step \<open>i\<close>:
  \<open>z\<^sub>i = x\<^sub>i / (x\<^sub>i + \<dots> + x\<^sub>K\<^sub>-\<^sub>1)\<close>.\<close>

definition stick_fraction :: "real list \<Rightarrow> nat \<Rightarrow> real" where
  "stick_fraction x i = x ! i / sum_list (drop i x)"

section \<open>Basic facts about tensors and running sums\<close>

lemma tmap_entries: "entries (tmap f x) = map f (entries x)"
  by (cases x) simp_all

lemma length_cumsum_from: "length (cumsum_from a xs) = length xs"
  by (induction xs arbitrary: a) simp_all

lemma length_cumprod_from: "length (cumprod_from a xs) = length xs"
  by (induction xs arbitrary: a) simp_all

lemma nth_cumsum_from:
  "i < length xs \<Longrightarrow> cumsum_from a xs ! i = a + sum_list (take (Suc i) xs)"
proof (induction xs arbitrary: a i)
  case Nil
  then show ?case by simp
next
  case (Cons x xs)
  then show ?case by (cases i) (simp_all add: algebra_simps)
qed

lemma nth_cumprod_from:
  "i < length xs \<Longrightarrow> cumprod_from a xs ! i = a * prod_list (take (Suc i) xs)"
proof (induction xs arbitrary: a i)
  case Nil
  then show ?case by simp
next
  case (Cons x xs)
  then show ?case by (cases i) (simp_all add: algebra_simps)
qed

lemma nth_rev_cumsum_rev:
  assumes "i < length xs"
  shows "rev (cumsum (rev xs)) ! i = sum_list (drop i xs)"
proof -
  have "rev (cumsum (rev xs)) ! i = cumsum (rev xs) ! (length xs - Suc i)"
    using assms by (simp add: rev_nth cumsum_def length_cumsum_from)
  also have "\<dots> = sum_list (take (length xs - i) (rev xs))"
    using assms by (simp add: cumsum_def nth_cumsum_from Suc_diff_Suc)
  also have "\<dots> = sum_list (rev (drop i xs))"
    using assms by (simp add: take_rev)
  also have "\<dots> = sum_list (drop i xs)"
    by (rule sum_list_rev)
  finally show ?thesis .
qed

lemma length_eq_share: "length (eq_share n) = n"
  by (simp add: eq_share_def)

lemma nth_eq_share: "k < n \<Longrightarrow> eq_share n ! k = - ln (real (n - k))"
  by (simp add: eq_share_def of_nat_diff)

lemma ones_like_head_nonempty: "y \<noteq> [] \<Longrightarrow> ones_like_head y = [1]"
  by (cases y) (simp_all add: ones_like_head_def)

lemma ones_like_head_Nil: "ones_like_head [] = []"
  by (simp add: ones_like_head_def)

lemma nth_one_cumprod:
  "k \<le> length u \<Longrightarrow> (1 # cumprod_from 1 u) ! k = prod_list (take k u)"
  by (cases k) (simp_all add: nth_cumprod_from)

section \<open>The sigmoid and the stick-breaking recurrences\<close>

lemma prod_list_take_nth:
  "k \<le> length u \<Longrightarrow> prod_list (take k u) = (\<Prod>j<k. u ! j)"
proof (induction k)
  case 0
  then show ?case by simp
next
  case (Suc k)
  then have "take (Suc k) u = take k u @ [u ! k]"
    by (simp add: take_Suc_conv_app_nth)
  with Suc show ?case by simp
qed

lemma sum_list_map_upt: "sum_list (map f [0..<n]) = (\<Sum>k<n. f k)"
  by (simp add: interv_sum_list_conv_sum_set_nat atLeast0LessThan)

lemma nth_shifted:
  "k < length y \<Longrightarrow> map2 (+) y (eq_share (length y)) ! k = stick_logit y k"
  by (simp add: length_eq_share nth_eq_share stick_logit_def)

lemma length_shifted: "length (map2 (+) y (eq_share (length y))) = length y"
  by (simp add: length_eq_share)

lemma stick_factors_prod:
  assumes "k \<le> length y"
  shows "prod_list (take k (map (\<lambda>t. 1 - t) (map sigmoid (map2 (+) y (eq_share (length y))))))
         = stick_remaining y k"
proof -
  let ?u = "map (\<lambda>t. 1 - t) (map sigmoid (map2 (+) y (eq_share (length y))))"
  have len: "length ?u = length y" by (simp add: length_eq_share)
  have "prod_list (take k ?u) = (\<Prod>j<k. ?u ! j)"
    using assms len by (intro prod_list_take_nth) simp
  also have "\<dots> = (\<Prod>j<k. 1 - sigmoid (stick_logit y j))"
  proof (rule prod.cong)
    fix j assume "j \<in> {..<k}"
    then have j: "j < length y" using assms by simp
    then have "?u ! j = 1 - sigmoid (map2 (+) y (eq_share (length y)) ! j)"
      by (simp add: length_eq_share)
    then show "?u ! j = 1 - sigmoid (stick_logit y j)"
      using j by (simp only: nth_shifted)
  qed simp
  finally show ?thesis by (simp add: stick_remaining_def)
qed

lemma StickBreaking_jacobian_det_Nil:
  "StickBreaking_jacobian_det (Vector []) = Inr (Scalar (StickBreaking_jacobian_closed_form []))"
  by (simp add: ones_like_head_Nil cumprod_def eq_share_def inverse_logit_def
      StickBreaking_jacobian_closed_form_def)

lemma StickBreaking_jacobian_det_nonempty:
  assumes "y \<noteq> []"
  shows "StickBreaking_jacobian_det (Vector y) = Inr (Scalar (StickBreaking_jacobian_closed_form y))"
proof -
  let ?n = "length y"
  let ?yl = "map2 (+) y (eq_share ?n)"
  let ?u = "map (\<lambda>t. 1 - t) (map sigmoid ?yl)"
  let ?S = "cumprod (1 # ?u)"
  let ?L = "map2 (-) (map2 (-) (map ln (butlast ?S)) (map (\<lambda>t. ln (1 + exp t)) ?yl))
                     (map (\<lambda>t. ln (1 + exp (- t))) ?yl)"
  let ?f = "\<lambda>k. ln (stick_remaining y k) - ln (1 + exp (stick_logit y k))
                      - ln (1 + exp (- stick_logit y k))"
  have S: "?S = 1 # cumprod_from 1 ?u" by (simp add: cumprod_def)
  have lenS: "length ?S = Suc ?n"
    unfolding S by (simp add: length_cumprod_from length_eq_share)
  have lenL: "length ?L = ?n"
    using lenS by (simp add: length_eq_share)
  have "?L = map ?f [0..<?n]"
  proof (rule nth_equalityI)
    show "length ?L = length (map ?f [0..<?n])" using lenL by simp
  next
    fix k assume "k < length ?L"
    then have k: "k < ?n" using lenL by simp
    have "butlast ?S ! k = ?S ! k"
      using k lenS by (simp add: nth_butlast)
    also have "\<dots> = prod_list (take k ?u)"
      using k unfolding S by (intro nth_one_cumprod) (simp add: length_eq_share)
    also have "\<dots> = stick_remaining y k"
      using k by (intro stick_factors_prod) simp
    finally have b: "butlast ?S ! k = stick_remaining y k" .
    have yl: "?yl ! k = stick_logit y k" using k by (rule nth_shifted)
    have "?L ! k = ln (butlast ?S ! k) - ln (1 + exp (?yl ! k)) - ln (1 + exp (- (?yl ! k)))"
      using k lenS by (simp add: length_eq_share)
    then show "?L ! k = map ?f [0..<?n] ! k"
      using k by (simp only: b yl) simp
  qed
  then have "sum_list ?L = StickBreaking_jacobian_closed_form y"
    by (simp only: sum_list_map_upt StickBreaking_jacobian_closed_form_def)
  moreover have "StickBreaking_jacobian_det (Vector y) = Inr (Scalar (sum_list ?L))"
    by (simp only: StickBreaking_jacobian_det.simps Let_def ones_like_head_nonempty [OF assms]
        inverse_logit_def tmap.simps entries.simps append_Cons append_Nil)
  ultimately show ?thesis by simp
qed

lemma sigmoid_pos: "0 < sigmoid t"
  by (simp add: sigmoid_def add_pos_pos)

lemma sigmoid_less_one: "sigmoid t < 1"
  by (simp add: sigmoid_def add_pos_pos)

lemma one_minus_sigmoid: "1 - sigmoid t = exp (- t) / (1 + exp (- t))"
proof -
  have "1 + exp (- t) \<noteq> 0" using exp_gt_zero [of "- t"] by linarith
  then show ?thesis by (simp add: sigmoid_def field_simps)
qed

lemma logit_sigmoid: "ln (sigmoid t / (1 - sigmoid t)) = t"
proof -
  have nz: "1 + exp (- t) \<noteq> 0" using exp_gt_zero [of "- t"] by linarith
  have "sigmoid t / (1 - sigmoid t) = 1 / exp (- t)"
    unfolding one_minus_sigmoid using nz by (simp add: sigmoid_def)
  also have "\<dots> = exp t" by (simp add: exp_minus field_simps)
  finally show ?thesis by simp
qed

lemma sigmoid_logit:
  assumes "0 < p" "p < 1"
  shows "sigmoid (ln (p / (1 - p))) = p"
proof -
  have pos: "0 < p / (1 - p)" using assms by simp
  have "exp (- ln (p / (1 - p))) = (1 - p) / p"
    using pos by (simp add: exp_minus)
  then have "sigmoid (ln (p / (1 - p))) = 1 / (1 + (1 - p) / p)"
    by (simp add: sigmoid_def)
  also have "\<dots> = p" using assms by (simp add: field_simps)
  finally show ?thesis .
qed

lemma stick_remaining_0: "stick_remaining y 0 = 1"
  by (simp add: stick_remaining_def)

lemma stick_remaining_Suc:
  "stick_remaining y (Suc k) = stick_remaining y k * (1 - sigmoid (stick_logit y k))"
  by (simp add: stick_remaining_def)

lemma stick_remaining_pos: "0 < stick_remaining y k"
  unfolding stick_remaining_def
  by (rule prod_pos) (simp add: sigmoid_less_one)

lemma StickBreaking_backward_nonempty:
  assumes "y \<noteq> []"
  shows "StickBreaking_backward (Vector y) =
         Inr (Vector (map (\<lambda>k. stick_remaining y k * sigmoid (stick_logit y k)) [0..<length y]
                      @ [stick_remaining y (length y)]))"
proof -
  let ?n = "length y"
  let ?yl = "map2 (+) y (eq_share ?n)"
  let ?z = "map sigmoid ?yl"
  let ?u = "map (\<lambda>t. 1 - t) ?z"
  let ?S = "cumprod (1 # ?u)"
  let ?x = "map2 (*) ?S (?z @ [1])"
  let ?r = "map (\<lambda>k. stick_remaining y k * sigmoid (stick_logit y k)) [0..<?n]
            @ [stick_remaining y ?n]"
  have S: "?S = 1 # cumprod_from 1 ?u" by (simp add: cumprod_def)
  have lenS: "length ?S = Suc ?n"
    unfolding S by (simp add: length_cumprod_from length_eq_share)
  have lenz: "length ?z = ?n" by (simp add: length_eq_share)
  have lenx: "length ?x = Suc ?n" using lenS lenz by simp
  have Snth: "?S ! k = stick_remaining y k" if "k \<le> ?n" for k
  proof -
    have "?S ! k = prod_list (take k ?u)"
      using that unfolding S by (intro nth_one_cumprod) (simp add: length_eq_share)
    also have "\<dots> = stick_remaining y k"
      using that by (rule stick_factors_prod)
    finally show ?thesis .
  qed
  have "?x = ?r"
  proof (rule nth_equalityI)
    show "length ?x = length ?r" using lenx by simp
  next
    fix k assume "k < length ?x"
    then have k: "k < Suc ?n" using lenx by simp
    have xk: "?x ! k = ?S ! k * (?z @ [1]) ! k"
      using k lenS lenz by simp
    consider (lt) "k < ?n" | (eq) "k = ?n" using k by linarith
    then show "?x ! k = ?r ! k"
    proof cases
      case True: lt
      then have "?z ! k = sigmoid (?yl ! k)" by (simp add: length_eq_share)
      then have "?z ! k = sigmoid (stick_logit y k)"
        using True by (simp only: nth_shifted)
      then have "(?z @ [1]) ! k = sigmoid (stick_logit y k)"
        using True lenz by (simp add: nth_append)
      moreover have "?r ! k = stick_remaining y k * sigmoid (stick_logit y k)"
        using True by (simp add: nth_append)
      ultimately show ?thesis using xk Snth [of k] True by simp
    next
      case kn: eq
      have "(?z @ [1]) ! k = 1" unfolding kn using lenz by (simp add: nth_append)
      moreover have "?r ! k = stick_remaining y ?n" unfolding kn by (simp add: nth_append)
      ultimately show ?thesis using xk Snth [of k] kn by simp
    qed
  qed
  moreover have "StickBreaking_backward (Vector y) = Inr (Vector ?x)"
    by (simp only: StickBreaking_backward.simps Let_def ones_like_head_nonempty [OF assms]
        inverse_logit_def tmap.simps entries.simps append_Cons append_Nil)
  ultimately show ?thesis by simp
qed

lemma telescope_tail:
  fixes f :: "nat \<Rightarrow> real"
  shows "i \<le> n \<Longrightarrow> (\<Sum>k = i..<n. f k - f (Suc k)) = f i - f n"
proof (induction n)
  case 0
  then show ?case by simp
next
  case (Suc n)
  consider (le) "i \<le> n" | (eq) "i = Suc n" using Suc.prems by linarith
  then show ?case
  proof cases
    case le
    then show ?thesis using Suc.IH by simp
  next
    case eq
    then show ?thesis by simp
  qed
qed

lemma stick_tail_sum:
  assumes "i \<le> length y"
  shows "sum_list (drop i (map (\<lambda>k. stick_remaining y k * sigmoid (stick_logit y k)) [0..<length y]
                      @ [stick_remaining y (length y)])) = stick_remaining y i"
proof -
  let ?n = "length y"
  let ?g = "\<lambda>k. stick_remaining y k * sigmoid (stick_logit y k)"
  have g: "?g k = stick_remaining y k - stick_remaining y (Suc k)" for k
    by (simp add: stick_remaining_Suc algebra_simps)
  have "drop i (map ?g [0..<?n] @ [stick_remaining y ?n])
        = map ?g [i..<?n] @ [stick_remaining y ?n]"
    using assms by (simp add: drop_map)
  then have "sum_list (drop i (map ?g [0..<?n] @ [stick_remaining y ?n]))
        = (\<Sum>k = i..<?n. ?g k) + stick_remaining y ?n"
    by (simp add: interv_sum_list_conv_sum_set_nat)
  also have "(\<Sum>k = i..<?n. ?g k) = (\<Sum>k = i..<?n. stick_remaining y k - stick_remaining y (Suc k))"
    by (simp only: g)
  also have "\<dots> = stick_remaining y i - stick_remaining y ?n"
    using assms by (rule telescope_tail)
  finally show ?thesis by simp
qed

lemma sum_list_drop_butlast:
  assumes "x \<noteq> []" "i < length x"
  shows "sum_list (drop i (butlast x)) + last x = sum_list (drop i x)"
proof -
  have "x = butlast x @ [last x]" using assms(1) by simp
  then have "drop i x = drop i (butlast x @ [last x])" by simp
  also have "\<dots> = drop i (butlast x) @ [last x]"
    using assms(2) by simp
  finally show ?thesis by simp
qed

lemma StickBreaking_forward_nonempty:
  assumes "x \<noteq> []"
  shows "StickBreaking_forward (Vector x) =
         Inr (Vector (map (\<lambda>i. ln (stick_fraction x i / (1 - stick_fraction x i))
                                 + ln (real (length x - 1 - i))) [0..<length x - 1]))"
proof -
  let ?n = "length x - 1"
  let ?x0 = "butlast x"
  let ?s = "map (\<lambda>c. c + last x) (rev (cumsum (rev ?x0)))"
  let ?z = "map2 (/) ?x0 ?s"
  let ?y = "map2 (-) (map (\<lambda>t. ln (t / (1 - t))) ?z) (eq_share ?n)"
  let ?r = "map (\<lambda>i. ln (stick_fraction x i / (1 - stick_fraction x i))
                                 + ln (real (length x - 1 - i))) [0..<?n]"
  have lens: "length ?s = ?n"
    by (simp add: cumsum_def length_cumsum_from)
  have lenz: "length ?z = ?n" using lens by simp
  have leny: "length ?y = ?n" using lenz by (simp add: length_eq_share)
  have "?y = ?r"
  proof (rule nth_equalityI)
    show "length ?y = length ?r" using leny by simp
  next
    fix i assume "i < length ?y"
    then have i: "i < ?n" using leny by simp
    then have ix: "i < length x" by simp
    have "rev (cumsum (rev ?x0)) ! i = sum_list (drop i ?x0)"
      using i by (intro nth_rev_cumsum_rev) simp
    then have "?s ! i = sum_list (drop i ?x0) + last x"
      using i by (simp add: cumsum_def length_cumsum_from)
    then have s: "?s ! i = sum_list (drop i x)"
      using sum_list_drop_butlast [OF assms ix] by simp
    have "?z ! i = ?x0 ! i / ?s ! i" using i lens by simp
    then have z: "?z ! i = stick_fraction x i"
      using i s by (simp add: stick_fraction_def nth_butlast)
    have "?y ! i = ln (?z ! i / (1 - ?z ! i)) - eq_share ?n ! i"
      using i lenz by (simp add: length_eq_share)
    then show "?y ! i = ?r ! i"
      using i by (simp add: z nth_eq_share)
  qed
  moreover have "StickBreaking_forward (Vector x) = Inr (Vector ?y)"
    using assms
    by (simp only: StickBreaking_forward.simps Let_def logit_def tmap.simps entries.simps if_False)
  ultimately show ?thesis by simp
qed

lemma sum_list_pos_nonempty:
  fixes xs :: "real list"
  assumes "list_all (\<lambda>t. 0 < t) xs" "xs \<noteq> []"
  shows "0 < sum_list xs"
  using assms
proof (induction xs)
  case Nil
  then show ?case by simp
next
  case (Cons a xs)
  show ?case
  proof (cases xs)
    case Nil
    then show ?thesis using Cons.prems by simp
  next
    case (Cons b ys)
    then have "0 < sum_list xs" using Cons.IH Cons.prems by simp
    then show ?thesis using Cons.prems by simp
  qed
qed

lemma stick_fraction_bounds:
  assumes "list_all (\<lambda>t. 0 < t) x" "Suc i < length x"
  shows "0 < stick_fraction x i" "stick_fraction x i < 1" "0 < sum_list (drop i x)"
    "sum_list (drop (Suc i) x) = sum_list (drop i x) - x ! i"
proof -
  have i: "i < length x" using assms(2) by simp
  have xi: "0 < x ! i" using assms(1) i by (simp add: list_all_length)
  have d: "drop i x = x ! i # drop (Suc i) x" using i by (simp add: Cons_nth_drop_Suc)
  have "list_all (\<lambda>t. 0 < t) (drop (Suc i) x)"
    using assms(1) by (auto simp: list_all_iff dest: in_set_dropD)
  moreover have "drop (Suc i) x \<noteq> []" using assms(2) by simp
  ultimately have tl: "0 < sum_list (drop (Suc i) x)" by (rule sum_list_pos_nonempty)
  have s: "sum_list (drop i x) = x ! i + sum_list (drop (Suc i) x)" by (simp add: d)
  show "0 < sum_list (drop i x)" using s xi tl by simp
  show "sum_list (drop (Suc i) x) = sum_list (drop i x) - x ! i" using s by simp
  show "0 < stick_fraction x i" using s xi tl by (simp add: stick_fraction_def)
  show "stick_fraction x i < 1" using s xi tl by (simp add: stick_fraction_def)
qed

lemma StickBreaking_backward_forward:
  assumes "simplex_interior x" "2 \<le> length x"
  shows "bind_result (StickBreaking_forward (Vector x)) StickBreaking_backward = Inr (Vector x)"
proof -
  let ?n = "length x - 1"
  let ?f = "stick_fraction x"
  let ?y = "map (\<lambda>i. ln (?f i / (1 - ?f i)) + ln (real (length x - 1 - i))) [0..<?n]"
  have pos: "list_all (\<lambda>t. 0 < t) x" and one: "sum_list x = 1"
    using assms(1) by (simp_all add: simplex_interior_def)
  have xne: "x \<noteq> []" using assms(2) by auto
  have leny: "length ?y = ?n" by simp
  have yne: "?y \<noteq> []" using assms(2) by simp
  have fwd: "StickBreaking_forward (Vector x) = Inr (Vector ?y)"
    using xne by (rule StickBreaking_forward_nonempty)
  have logit_k: "stick_logit ?y k = ln (?f k / (1 - ?f k))" if "k < ?n" for k
    using that by (simp add: stick_logit_def)
  have sig: "sigmoid (stick_logit ?y k) = ?f k" if "k < ?n" for k
  proof -
    have "Suc k < length x" using that by simp
    then have "0 < ?f k" "?f k < 1" using stick_fraction_bounds [OF pos] by simp_all
    then show ?thesis unfolding logit_k [OF that] by (rule sigmoid_logit)
  qed
  have rem: "stick_remaining ?y k = sum_list (drop k x)" if "k \<le> ?n" for k
    using that
  proof (induction k)
    case 0
    then show ?case using one by (simp add: stick_remaining_0)
  next
    case (Suc k)
    then have k: "k < ?n" by simp
    then have Sk: "Suc k < length x" by simp
    have s: "0 < sum_list (drop k x)"
      and t: "sum_list (drop (Suc k) x) = sum_list (drop k x) - x ! k"
      using stick_fraction_bounds [OF pos Sk] by simp_all
    have "stick_remaining ?y (Suc k) = sum_list (drop k x) * (1 - ?f k)"
      using Suc k by (simp only: stick_remaining_Suc sig)
    also have "\<dots> = sum_list (drop k x) - x ! k"
      using s by (simp add: stick_fraction_def algebra_simps)
    finally show ?case using t by simp
  qed
  let ?r = "map (\<lambda>k. stick_remaining ?y k * sigmoid (stick_logit ?y k)) [0..<length ?y]
            @ [stick_remaining ?y (length ?y)]"
  have bwd: "StickBreaking_backward (Vector ?y) = Inr (Vector ?r)"
    using yne by (rule StickBreaking_backward_nonempty)
  have "?r = x"
  proof (rule nth_equalityI)
    show "length ?r = length x" using xne by simp
  next
    fix k assume "k < length ?r"
    then have k: "k < Suc ?n" by simp
    consider (lt) "k < ?n" | (eq) "k = ?n" using k by linarith
    then show "?r ! k = x ! k"
    proof cases
      case lt
      then have Sk: "Suc k < length x" by simp
      have s: "0 < sum_list (drop k x)" using stick_fraction_bounds [OF pos Sk] by simp
      have "?r ! k = stick_remaining ?y k * sigmoid (stick_logit ?y k)"
        using lt by (simp add: nth_append del: upt_Suc)
      also have "\<dots> = sum_list (drop k x) * ?f k"
        using lt by (simp only: sig rem less_imp_le)
      also have "\<dots> = x ! k" using s by (simp add: stick_fraction_def)
      finally show ?thesis .
    next
      case eq
      have "?r ! k = stick_remaining ?y ?n"
        unfolding eq by (simp add: nth_append del: upt_Suc)
      also have "\<dots> = sum_list (drop ?n x)" by (rule rem) simp
      also have "drop ?n x = [last x]"
        using xne by (metis append_butlast_last_id append_eq_conv_conj length_butlast)
      also have "sum_list [last x] = x ! ?n" using xne by (simp add: last_conv_nth)
      finally show ?thesis unfolding eq .
    qed
  qed
  then show ?thesis using fwd bwd by simp
qed

lemma StickBreaking_forward_backward:
  assumes "y \<noteq> []"
  shows "bind_result (StickBreaking_backward (Vector y)) StickBreaking_forward = Inr (Vector y)"
proof -
  let ?n = "length y"
  let ?g = "\<lambda>k. stick_remaining y k * sigmoid (stick_logit y k)"
  let ?x = "map ?g [0..<?n] @ [stick_remaining y ?n]"
  have bwd: "StickBreaking_backward (Vector y) = Inr (Vector ?x)"
    using assms by (rule StickBreaking_backward_nonempty)
  have xne: "?x \<noteq> []" by simp
  have lenx: "length ?x - 1 = ?n" by simp
  let ?r = "map (\<lambda>i. ln (stick_fraction ?x i / (1 - stick_fraction ?x i))
                                 + ln (real (length ?x - 1 - i))) [0..<length ?x - 1]"
  have fwd: "StickBreaking_forward (Vector ?x) = Inr (Vector ?r)"
    using xne by (rule StickBreaking_forward_nonempty)
  have frac: "stick_fraction ?x i = sigmoid (stick_logit y i)" if "i < ?n" for i
  proof -
    have "?x ! i = ?g i" using that by (simp add: nth_append del: upt_Suc)
    moreover have "sum_list (drop i ?x) = stick_remaining y i"
      using that by (intro stick_tail_sum) simp
    ultimately show ?thesis
      using stick_remaining_pos [of y i] by (simp add: stick_fraction_def)
  qed
  have "?r = y"
  proof (rule nth_equalityI)
    show "length ?r = length y" by simp
  next
    fix i assume "i < length ?r"
    then have i: "i < ?n" by simp
    have "?r ! i = ln (stick_fraction ?x i / (1 - stick_fraction ?x i)) + ln (real (?n - i))"
      using i by (simp del: upt_Suc)
    also have "\<dots> = stick_logit y i + ln (real (?n - i))"
      by (simp only: frac [OF i] logit_sigmoid)
    also have "\<dots> = y ! i" by (simp add: stick_logit_def)
    finally show "?r ! i = y ! i" .
  qed
  then show ?thesis using fwd bwd by simp
qed

lemma StickBreaking_backward_sums_to_one:
  assumes "y \<noteq> []"
  shows "\<exists>x. StickBreaking_backward (Vector y) = Inr (Vector x) \<and> length x = Suc (length y)
           \<and> sum_list x = 1 \<and> list_all (\<lambda>t. 0 < t) x"
proof -
  let ?g = "\<lambda>k. stick_remaining y k * sigmoid (stick_logit y k)"
  let ?x = "map ?g [0..<length y] @ [stick_remaining y (length y)]"
  have "StickBreaking_backward (Vector y) = Inr (Vector ?x)"
    using assms by (rule StickBreaking_backward_nonempty)
  moreover have "sum_list ?x = 1"
    using stick_tail_sum [of 0 y] by (simp add: stick_remaining_0)
  moreover have "list_all (\<lambda>t. 0 < t) ?x"
    by (simp add: list_all_iff stick_remaining_pos sigmoid_pos)
  moreover have "length ?x = Suc (length y)" by simp
  ultimately show ?thesis by blast
qed

section \<open>Results as values and the transformed distribution\<close>

lemma bind_result_Inr_iff:
  "bind_result r f = Inr v \<longleftrightarrow> (\<exists>a. r = Inr a \<and> f a = Inr v)"
  by (cases r) simp_all

lemma bind_result_assoc:
  "bind_result (bind_result r f) g = bind_result r (\<lambda>a. bind_result (f a) g)"
  by (cases r) simp_all

lemma TransformedDistribution_init_fields:
  assumes "TransformedDistribution_init FreeRV Distribution_init d t = Inr self"
  shows "dist' self = d" "transform_used self = t"
proof -
  obtain tv v where "self = \<lparr>dist' = d, transform_used = t, shape = tshape v, testval = tv\<rparr>"
    using assms unfolding TransformedDistribution_init_def bind_result_Inr_iff by auto
  then show "dist' self = d" "transform_used self = t" by simp_all
qed

lemma tplus_broadcast:
  assumes "broadcastable l j"
  shows "\<exists>r. tplus l j = Inr r \<and> rank r = max (rank l) (rank j)
           \<and> length (entries r)
               = (if length (entries l) = 1 then length (entries j) else length (entries l))
           \<and> (\<forall>i < length (entries r). entries r ! i = broadcast_entry l i + broadcast_entry j i)"
proof (cases l)
  case l: (Scalar a)
  show ?thesis
  proof (cases j)
    case (Scalar b)
    then show ?thesis using l by (simp add: broadcast_entry_def)
  next
    case (Vector v)
    then show ?thesis using l by (auto simp add: broadcast_entry_def)
  qed
next
  case l: (Vector u)
  show ?thesis
  proof (cases j)
    case (Scalar b)
    then show ?thesis using l by (auto simp add: broadcast_entry_def)
  next
    case (Vector v)
    have b: "length u = length v \<or> length u = 1 \<or> length v = 1"
      using assms l Vector by (simp add: broadcastable_def)
    consider (same) "length u = length v" | (left) "length u \<noteq> length v" "length u = 1"
      | (right) "length u \<noteq> length v" "length u \<noteq> 1" "length v = 1"
      using b by blast
    then show ?thesis
    proof cases
      case same
      then show ?thesis using l Vector by (auto simp add: broadcast_entry_def)
    next
      case left
      then have "hd u = u ! 0" by (cases u) simp_all
      then show ?thesis using left l Vector by (auto simp add: broadcast_entry_def)
    next
      case right
      then have "hd v = v ! 0" by (cases v) simp_all
      then show ?thesis using right l Vector by (auto simp add: broadcast_entry_def)
    qed
  qed
qed

lemma tplus_not_broadcastable:
  "\<not> broadcastable l j \<Longrightarrow> tplus l j = Inl ValueError"
  by (cases l; cases j) (auto simp add: broadcastable_def)

section \<open>Entrywise maps\<close>

lemma tmap_tmap: "tmap f (tmap g x) = tmap (\<lambda>t. f (g t)) x"
  by (cases x) simp_all

lemma tmap_fixed:
  assumes "all_entries P x" "\<And>t. P t \<Longrightarrow> f t = t"
  shows "tmap f x = x"
proof (cases x)
  case (Scalar a)
  then show ?thesis using assms by (simp add: all_entries_def)
next
  case (Vector v)
  then have "\<forall>t\<in>set v. f t = t" using assms by (simp add: all_entries_def list_all_iff)
  then have "map f v = v" by (simp add: map_idI)
  then show ?thesis using Vector by simp
qed

lemma tmap_fixed_iff: "tmap f x = x \<longleftrightarrow> all_entries (\<lambda>t. f t = t) x"
proof (cases x)
  case (Scalar a)
  then show ?thesis by (simp add: all_entries_def)
next
  case (Vector v)
  have "map f v = v \<longleftrightarrow> (\<forall>t\<in>set v. f t = t)"
    by (induction v) auto
  then show ?thesis using Vector by (simp add: all_entries_def list_all_iff)
qed

lemma all_entries_tmap:
  assumes "\<And>t. P (f t)"
  shows "all_entries P (tmap f x)"
  using assms by (cases x) (simp_all add: all_entries_def list_all_iff)

lemma all_entries_True: "all_entries (\<lambda>t. True) x"
  by (cases x) (simp_all add: all_entries_def list_all_iff)

lemma reshape_entries: "reshape (map g (entries x)) x = Inr (tmap g x)"
  by (cases x) simp_all

lemma tsum_Scalar_fn: "(\<lambda>s. tsum (tmap f (Scalar s))) = f"
  by (rule ext) simp

lemma Log_backward_fn: "Log_backward = tmap exp"
  by (rule ext) (simp add: Log_backward_def)

lemma LogOdds_backward_fn: "LogOdds_backward = tmap sigmoid"
  by (rule ext) (simp add: LogOdds_backward_def inverse_logit_def)

lemma Interval_backward_fn:
  "Interval_backward a b = tmap (\<lambda>t. (b - a) * exp t / (1 + exp t) + a)"
  by (rule ext) (simp add: Interval_backward_def)


section \<open>The angle function\<close>

lemma arctan2_range: "- pi < arctan2 y x \<and> arctan2 y x \<le> pi"
proof -
  have b: "- (pi / 2) < arctan (y / x)" "arctan (y / x) < pi / 2"
    by (rule arctan_lbound, rule arctan_ubound)
  consider (pos) "0 < x" | (negpos) "x < 0" "0 \<le> y" | (negneg) "x < 0" "y < 0"
    | (zero) "x = 0"
    by linarith
  then show ?thesis
  proof cases
    case pos
    then show ?thesis using b pi_gt_zero by (simp add: arctan2_def)
  next
    case negpos
    then have "y / x \<le> 0" by (simp add: divide_nonneg_neg)
    then have "arctan (y / x) \<le> 0" by (simp add: arctan_le_zero_iff)
    then show ?thesis using negpos b pi_gt_zero by (simp add: arctan2_def)
  next
    case negneg
    then have "0 < y / x" by (simp add: divide_neg_neg)
    then have "0 < arctan (y / x)" by (simp add: zero_less_arctan_iff)
    then show ?thesis using negneg b pi_gt_zero by (simp add: arctan2_def)
  next
    case zero
    then have "arctan2 y x = pi / 2 \<or> arctan2 y x = - (pi / 2) \<or> arctan2 y x = 0"
      by (simp add: arctan2_def)
    then show ?thesis using pi_gt_zero by (elim disjE) linarith+
  qed
qed

lemma arctan2_sin_cos_principal:
  assumes "- pi < t" "t \<le> pi"
  shows "arctan2 (sin t) (cos t) = t"
proof -
  consider (mid) "- (pi / 2) < t" "t < pi / 2" | (top) "t = pi / 2" | (bot) "t = - (pi / 2)"
    | (left) "pi / 2 < t" | (right) "t < - (pi / 2)"
    by linarith
  then show ?thesis
  proof cases
    case mid
    then have "0 < cos t" by (rule cos_gt_zero_pi)
    moreover have "arctan (sin t / cos t) = t"
      using arctan_tan [OF mid] by (simp add: tan_def)
    ultimately show ?thesis by (simp add: arctan2_def)
  next
    case top
    show ?thesis unfolding top by (simp add: arctan2_def)
  next
    case bot
    show ?thesis unfolding bot by (simp add: arctan2_def)
  next
    case left
    let ?u = "t - pi"
    have u: "- (pi / 2) < ?u" "?u < pi / 2" using left assms by simp_all
    have "0 < cos ?u" using u by (rule cos_gt_zero_pi)
    then have c: "cos t < 0" by (simp add: cos_minus_pi)
    have s: "0 \<le> sin t" using left assms pi_gt_zero by (intro sin_ge_zero) simp_all
    have "tan ?u = sin t / cos t" by (simp add: tan_def sin_minus_pi cos_minus_pi)
    then have "arctan (sin t / cos t) = ?u" using arctan_tan [OF u] by simp
    then show ?thesis using c s by (simp add: arctan2_def)
  next
    case right
    let ?u = "t + pi"
    have u: "- (pi / 2) < ?u" "?u < pi / 2" using right assms by simp_all
    have "0 < cos ?u" using u by (rule cos_gt_zero_pi)
    then have c: "cos t < 0" by (simp add: cos_periodic_pi)
    have "0 < sin (- t)" using right assms pi_gt_zero by (intro sin_gt_zero) simp_all
    then have s: "sin t < 0" by simp
    have "tan ?u = sin t / cos t" by (simp add: tan_def sin_periodic_pi cos_periodic_pi)
    then have "arctan (sin t / cos t) = ?u" using arctan_tan [OF u] by simp
    then show ?thesis using c s by (simp add: arctan2_def)
  qed
qed

lemma arctan2_sin_cos_wraps: "\<exists>k::int. arctan2 (sin t) (cos t) = t + 2 * pi * real_of_int k"
proof -
  define k where "k = - \<lceil>(t - pi) / (2 * pi)\<rceil>"
  define u where "u = t + 2 * pi * real_of_int k"
  have q1: "(t - pi) / (2 * pi) \<le> real_of_int (- k)" by (simp add: k_def)
  have q2: "real_of_int (- k) < (t - pi) / (2 * pi) + 1" unfolding k_def by simp linarith
  have "t - pi \<le> real_of_int (- k) * (2 * pi)"
    using q1 pi_gt_zero by (simp add: pos_divide_le_eq)
  then have up: "u \<le> pi" by (simp add: u_def algebra_simps)
  have "real_of_int (- k) - 1 < (t - pi) / (2 * pi)" using q2 by simp
  then have "(real_of_int (- k) - 1) * (2 * pi) < t - pi"
    using pi_gt_zero by (simp add: pos_less_divide_eq)
  then have lo: "- pi < u" by (simp add: u_def algebra_simps)
  have "sin u = sin t \<and> cos u = cos t"
    unfolding sin_cos_eq_iff u_def by blast
  then have "arctan2 (sin t) (cos t) = arctan2 (sin u) (cos u)" by simp
  also have "\<dots> = u" using lo up by (rule arctan2_sin_cos_principal)
  finally show ?thesis unfolding u_def by blast
qed

lemma arctan2_sin_cos_fixed_iff:
  "arctan2 (sin t) (cos t) = t \<longleftrightarrow> - pi < t \<and> t \<le> pi"
  using arctan2_range [of "sin t" "cos t"] arctan2_sin_cos_principal [of t] by auto

lemma Circular_backward_3pi: "arctan2 (sin (3 * pi)) (cos (3 * pi)) = pi"
proof -
  have "sin (3 * pi) = sin (pi + 2 * pi)" "cos (3 * pi) = cos (pi + 2 * pi)" by simp_all
  then have "sin (3 * pi) = 0" "cos (3 * pi) = - 1"
    by (simp_all only: sin_periodic cos_periodic sin_pi cos_pi)
  then show ?thesis by (simp add: arctan2_def)
qed

section \<open>The interval map and the derivatives of the backward maps\<close>

lemma Interval_backward_forward_point:
  fixes a b t :: real
  assumes "a < t" "t < b"
  shows "(b - a) * exp (ln ((t - a) / (b - t))) / (1 + exp (ln ((t - a) / (b - t)))) + a = t"
proof -
  have pos: "0 < (t - a) / (b - t)" using assms by simp
  have nz: "b - t \<noteq> 0" "b - a \<noteq> 0" using assms by simp_all
  have "1 + (t - a) / (b - t) = (b - a) / (b - t)" using nz by (simp add: field_simps)
  then have "(b - a) * ((t - a) / (b - t)) / (1 + (t - a) / (b - t)) = t - a"
    using nz by simp
  then show ?thesis using pos by simp
qed

lemma Interval_backward_split:
  fixes a b s :: real
  shows "(b - a) * exp s / (1 + exp s) + a - a = (b - a) * (exp s / (1 + exp s))"
    and "b - ((b - a) * exp s / (1 + exp s) + a) = (b - a) * (1 / (1 + exp s))"
proof -
  have nz: "1 + exp s \<noteq> 0" using exp_gt_zero [of s] by linarith
  show "(b - a) * exp s / (1 + exp s) + a - a = (b - a) * (exp s / (1 + exp s))" by simp
  show "b - ((b - a) * exp s / (1 + exp s) + a) = (b - a) * (1 / (1 + exp s))"
    using nz by (simp add: field_simps)
qed

lemma Interval_forward_backward_point:
  fixes a b s :: real
  assumes "a \<noteq> b"
  shows "ln (((b - a) * exp s / (1 + exp s) + a - a) / (b - ((b - a) * exp s / (1 + exp s) + a))) = s"
proof -
  have nz: "1 + exp s \<noteq> 0" using exp_gt_zero [of s] by linarith
  have ab: "b - a \<noteq> 0" using assms by simp
  have "((b - a) * exp s / (1 + exp s) + a - a) / (b - ((b - a) * exp s / (1 + exp s) + a))
        = ((b - a) * (exp s / (1 + exp s))) / ((b - a) * (1 / (1 + exp s)))"
    by (simp only: Interval_backward_split)
  also have "\<dots> = exp s" using nz ab by simp
  finally show ?thesis by simp
qed


lemma sigmoid_has_derivative:
  "(sigmoid has_real_derivative LogOdds_backward_deriv t) (at t)"
proof -
  have nz: "1 + exp (- t) \<noteq> 0" using exp_gt_zero [of "- t"] by linarith
  have "((\<lambda>s. 1 / (1 + exp (- s))) has_real_derivative
          (exp (- t) / (1 + exp (- t))\<^sup>2)) (at t)"
    using nz by (auto intro!: derivative_eq_intros simp: power2_eq_square)
  moreover have "exp (- t) / (1 + exp (- t))\<^sup>2 = LogOdds_backward_deriv t"
    using nz unfolding LogOdds_backward_deriv_def one_minus_sigmoid
    by (simp add: sigmoid_def power2_eq_square)
  moreover have "sigmoid = (\<lambda>s. 1 / (1 + exp (- s)))" by (rule ext) (simp add: sigmoid_def)
  ultimately show ?thesis by simp
qed

lemma LogOdds_backward_deriv_pos: "0 < LogOdds_backward_deriv t"
  using sigmoid_pos [of t] sigmoid_less_one [of t] by (simp add: LogOdds_backward_deriv_def)

lemma Interval_has_derivative:
  "((\<lambda>s. (b - a) * exp s / (1 + exp s) + a) has_real_derivative Interval_backward_deriv a b t) (at t)"
proof -
  have nz: "1 + exp t \<noteq> 0" using exp_gt_zero [of t] by linarith
  have "((\<lambda>s. (b - a) * exp s / (1 + exp s) + a) has_real_derivative
          (((b - a) * exp t) * (1 + exp t) - ((b - a) * exp t) * exp t) / ((1 + exp t) * (1 + exp t)))
        (at t)"
    using nz by (auto intro!: derivative_eq_intros)
  moreover have "(((b - a) * exp t) * (1 + exp t) - ((b - a) * exp t) * exp t) / ((1 + exp t) * (1 + exp t))
        = Interval_backward_deriv a b t"
    by (simp add: Interval_backward_deriv_def power2_eq_square algebra_simps)
  ultimately show ?thesis by simp
qed

lemma Interval_backward_deriv_nonzero: "a \<noteq> b \<Longrightarrow> Interval_backward_deriv a b t \<noteq> 0"
proof -
  assume "a \<noteq> b"
  moreover have "1 + exp t \<noteq> 0" using exp_gt_zero [of t] by linarith
  ultimately show ?thesis by (simp add: Interval_backward_deriv_def)
qed

section \<open>The default Jacobian of an entrywise transform\<close>

lemma sum_list_map_update:
  fixes f :: "real \<Rightarrow> real"
  shows "i < length v \<Longrightarrow> sum_list (map f (v[i := t])) = f t + (sum_list (map f v) - f (v ! i))"
proof (induction v arbitrary: i)
  case Nil
  then show ?case by simp
next
  case (Cons a v)
  then show ?case by (cases i) simp_all
qed

lemma elemwise_cost_derivative:
  assumes "i < length (entries x)" "(f has_real_derivative D) (at (entries x ! i))"
  shows "((\<lambda>t. tsum (tmap f (tupdate x i t))) has_real_derivative D) (at (entries x ! i))"
proof (cases x)
  case (Scalar a)
  then have "(\<lambda>t. tsum (tmap f (tupdate x i t))) = f" by (intro ext) simp
  then show ?thesis using assms(2) by simp
next
  case (Vector v)
  then have i: "i < length v" using assms(1) by simp
  have eq: "(\<lambda>t. tsum (tmap f (tupdate x i t))) = (\<lambda>t. f t + (sum_list (map f v) - f (v ! i)))"
    using Vector i by (intro ext) (simp add: sum_list_map_update)
  have "((\<lambda>t. f t + (sum_list (map f v) - f (v ! i))) has_real_derivative D) (at (v ! i))"
    using assms(2) Vector by (auto intro!: derivative_eq_intros)
  then show ?thesis unfolding eq using Vector by simp
qed

lemma elemwise_gradient_entries:
  assumes "differentiates gradient (\<lambda>v. tsum (tmap f v)) x"
    and "\<forall>t\<in>set (entries x). (f has_real_derivative f' t) (at t)"
  shows "gradient (\<lambda>v. tsum (tmap f v)) x = map f' (entries x)"
proof (rule nth_equalityI)
  show "length (gradient (\<lambda>v. tsum (tmap f v)) x) = length (map f' (entries x))"
    using assms(1) by (simp add: differentiates_def)
next
  fix i assume "i < length (gradient (\<lambda>v. tsum (tmap f v)) x)"
  then have i: "i < length (entries x)" using assms(1) by (simp add: differentiates_def)
  then have "(f has_real_derivative f' (entries x ! i)) (at (entries x ! i))"
    using assms(2) by simp
  then have "((\<lambda>t. tsum (tmap f (tupdate x i t))) has_real_derivative f' (entries x ! i))
               (at (entries x ! i))"
    using i by (intro elemwise_cost_derivative)
  moreover have "((\<lambda>t. tsum (tmap f (tupdate x i t))) has_real_derivative
                   gradient (\<lambda>v. tsum (tmap f v)) x ! i) (at (entries x ! i))"
    using assms(1) i by (simp add: differentiates_def)
  ultimately have "gradient (\<lambda>v. tsum (tmap f v)) x ! i = f' (entries x ! i)"
    by (rule DERIV_unique [rotated])
  then show "gradient (\<lambda>v. tsum (tmap f v)) x ! i = map f' (entries x) ! i"
    using i by simp
qed

lemma ElemwiseTransform_jacobian_det_tmap:
  assumes "differentiates gradient (\<lambda>v. tsum (tmap f v)) x"
    and "\<forall>t\<in>set (entries x). (f has_real_derivative f' t) (at t)"
  shows "ElemwiseTransform_jacobian_det gradient (tmap f) x = Inr (tmap (\<lambda>t. ln \<bar>f' t\<bar>) x)"
proof -
  have "gradient (\<lambda>v. tsum (tmap f v)) x = map f' (entries x)"
    using assms by (rule elemwise_gradient_entries)
  then show ?thesis
    by (simp add: ElemwiseTransform_jacobian_det_def reshape_entries tmap_tmap)
qed

lemma elemwise_engine_differentiates:
  assumes "\<forall>t\<in>set (entries x). (f has_real_derivative f' t) (at t)"
  shows "differentiates (\<lambda>c v. map f' (entries v)) (\<lambda>v. tsum (tmap f v)) x"
  unfolding differentiates_def
proof (intro conjI allI impI)
  show "length (map f' (entries x)) = length (entries x)" by simp
next
  fix i assume i: "i < length (entries x)"
  then have "(f has_real_derivative f' (entries x ! i)) (at (entries x ! i))"
    using assms by simp
  then have "((\<lambda>t. tsum (tmap f (tupdate x i t))) has_real_derivative f' (entries x ! i))
               (at (entries x ! i))"
    using i by (intro elemwise_cost_derivative)
  then show "((\<lambda>t. tsum (tmap f (tupdate x i t))) has_real_derivative
               map f' (entries x) ! i) (at (entries x ! i))"
    using i by simp
qed

section \<open>Round trips of the entrywise transforms\<close>

lemma Log_round_trip:
  "all_entries (\<lambda>t. 0 < t) x \<Longrightarrow> Log_backward (Log_forward x) = x"
  "Log_forward (Log_backward y) = y"
proof -
  show "all_entries (\<lambda>t. 0 < t) x \<Longrightarrow> Log_backward (Log_forward x) = x"
    unfolding Log_backward_def Log_forward_def tmap_tmap by (erule tmap_fixed) simp
  show "Log_forward (Log_backward y) = y"
    unfolding Log_backward_def Log_forward_def tmap_tmap
    by (rule tmap_fixed [OF all_entries_True]) simp
qed

lemma LogOdds_round_trip:
  "all_entries (\<lambda>t. 0 < t \<and> t < 1) x \<Longrightarrow> LogOdds_backward (LogOdds_forward x) = x"
  "LogOdds_forward (LogOdds_backward y) = y"
proof -
  show "all_entries (\<lambda>t. 0 < t \<and> t < 1) x \<Longrightarrow> LogOdds_backward (LogOdds_forward x) = x"
    unfolding LogOdds_backward_def LogOdds_forward_def inverse_logit_def logit_def tmap_tmap
    by (erule tmap_fixed) (simp add: sigmoid_logit)
  show "LogOdds_forward (LogOdds_backward y) = y"
    unfolding LogOdds_backward_def LogOdds_forward_def inverse_logit_def logit_def tmap_tmap
    by (rule tmap_fixed [OF all_entries_True]) (simp add: logit_sigmoid)
qed

lemma Interval_round_trip:
  "all_entries (\<lambda>t. a < t \<and> t < b) x \<Longrightarrow> Interval_backward a b (Interval_forward a b x) = x"
  "a \<noteq> b \<Longrightarrow> Interval_forward a b (Interval_backward a b y) = y"
proof -
  show "all_entries (\<lambda>t. a < t \<and> t < b) x \<Longrightarrow> Interval_backward a b (Interval_forward a b x) = x"
    unfolding Interval_backward_def Interval_forward_def tmap_tmap
    by (erule tmap_fixed) (blast intro: Interval_backward_forward_point)
  show "a \<noteq> b \<Longrightarrow> Interval_forward a b (Interval_backward a b y) = y"
    unfolding Interval_backward_def Interval_forward_def tmap_tmap
    by (rule tmap_fixed [OF all_entries_True]) (rule Interval_forward_backward_point)
qed

lemma Circular_round_trip_iff:
  "Circular_backward (Circular_forward y) = y \<longleftrightarrow> all_entries (\<lambda>t. - pi < t \<and> t \<le> pi) y"
  "Circular_forward (Circular_backward y) = y \<longleftrightarrow> all_entries (\<lambda>t. - pi < t \<and> t \<le> pi) y"
  by (simp_all add: Circular_backward_def Circular_forward_def tmap_fixed_iff
      arctan2_sin_cos_fixed_iff)

section \<open>Evaluations at concrete points\<close>

lemma StickBreaking_forward_half:
  "StickBreaking_forward (Vector [1 / 2, 1 / 2]) = Inr (Vector [0])"
  by (simp add: Let_def cumsum_def logit_def eq_share_def)

lemma StickBreaking_backward_zero:
  "StickBreaking_backward (Vector [0]) = Inr (Vector [1 / 2, 1 / 2])"
  by (simp add: Let_def cumprod_def inverse_logit_def eq_share_def ones_like_head_def sigmoid_def)

lemma StickBreaking_jacobian_det_zero:
  "StickBreaking_jacobian_det (Vector [0]) = Inr (Scalar (- 2 * ln 2))"
  by (simp add: Let_def cumprod_def inverse_logit_def eq_share_def ones_like_head_def sigmoid_def)

lemma SumTo1_backward_sums_to_one:
  "\<exists>x. SumTo1_backward (Vector y) = Inr (Vector x) \<and> length x = Suc (length y) \<and> sum_list x = 1"
  by simp

section \<open>Rounding to binary64\<close>










section \<open>The claims\<close>

text \<open>
  Except where binary64 is named, tensor entries are real numbers and the numeric
  operations are the mathematical functions; statements about logarithms are made where
  their argument is positive, so that no statement depends on the value HOL gives
  \<open>ln\<close> outside its domain.
\<close>

subsection \<open>C1: the composed log-density\<close>

text \<open>
  Claim C1.  For every base distribution \<open>d\<close>, transform \<open>t\<close> and input \<open>y\<close>, the
  log-density of the transformed distribution built from \<open>d\<close> and \<open>t\<close> is
  \<open>d.logp (t.backward y) + t.jacobian_det y\<close>: the base log-density at the pulled-back
  point plus the Jacobian term at the same unconstrained point.  Whatever the free
  variable and the initialiser of the base class do, if the constructor returns an
  object then: an exception of \<open>backward\<close>, of \<open>d.logp\<close> or of \<open>jacobian_det\<close>, in
  this order, is the result; and when the three calls return \<open>x\<close>, \<open>l\<close> and \<open>j\<close>,
  and \<open>l\<close> and \<open>j\<close> can be added, the result \<open>r\<close> is their sum entry by entry,
  \<open>r\<^sub>i = l\<^sub>i + j\<^sub>i\<close>, a single entry of \<open>l\<close> or \<open>j\<close> standing for every entry.
\<close>

theorem TransformedDistribution_logp_formula:
  assumes "TransformedDistribution_init FreeRV Distribution_init d t = Inr self"
  shows "TransformedDistribution_logp self y =
           bind_result (bind_result (backward t y) (logp d))
             (\<lambda>l. bind_result (jacobian_det t y) (tplus l))
         \<and> (backward t y = Inr x \<and> logp d x = Inr l \<and> jacobian_det t y = Inr j
               \<and> broadcastable l j
              \<longrightarrow> (\<exists>r. TransformedDistribution_logp self y = Inr r
                    \<and> rank r = max (rank l) (rank j)
                    \<and> length (entries r)
                        = (if length (entries l) = 1 then length (entries j)
                           else length (entries l))
                    \<and> (\<forall>i < length (entries r).
                          entries r ! i = broadcast_entry l i + broadcast_entry j i)))"
proof -
  have f: "dist' self = d" "transform_used self = t"
    using TransformedDistribution_init_fields [OF assms] by simp_all
  have eq: "TransformedDistribution_logp self y =
           bind_result (bind_result (backward t y) (logp d))
             (\<lambda>l. bind_result (jacobian_det t y) (tplus l))"
    by (simp only: TransformedDistribution_logp_def f bind_result_assoc)
  have "\<exists>r. TransformedDistribution_logp self y = Inr r
                    \<and> rank r = max (rank l) (rank j)
                    \<and> length (entries r)
                        = (if length (entries l) = 1 then length (entries j)
                           else length (entries l))
                    \<and> (\<forall>i < length (entries r).
                          entries r ! i = broadcast_entry l i + broadcast_entry j i)"
    if h: "backward t y = Inr x" "logp d x = Inr l" "jacobian_det t y = Inr j"
      and b: "broadcastable l j"
  proof -
    have "TransformedDistribution_logp self y = tplus l j"
      unfolding eq using h by simp
    then show ?thesis using tplus_broadcast [OF b] by simp
  qed
  then show ?thesis using eq by blast
qed

text \<open>An instance: the entrywise log-density \<open>3 x\<close> under \<^verbatim>\<open>StickBreaking\<close> at
  \<open>y = [0]\<close>.  The pulled-back point is \<open>[1/2, 1/2]\<close>, the base log-density
  \<open>[3/2, 3/2]\<close>, the Jacobian term the scalar \<open>- 2 log 2\<close>, and the result
  \<open>[3/2 - 2 log 2, 3/2 - 2 log 2]\<close>.\<close>

theorem TransformedDistribution_logp_formula_witness:
  "TransformedDistribution_init
     (\<lambda>d. bind_result (default' d) (\<lambda>x0. bind_result (logp d x0) (\<lambda>u. Inr x0)))
     (\<lambda>s tv. Inr ())
     \<lparr>logp = (\<lambda>x. Inr (tmap (\<lambda>t. 3 * t) x)), default' = Inr (Vector [1 / 2, 1 / 2])\<rparr>
     StickBreaking
     = Inr \<lparr>dist' = \<lparr>logp = (\<lambda>x. Inr (tmap (\<lambda>t. 3 * t) x)),
                        default' = Inr (Vector [1 / 2, 1 / 2])\<rparr>,
            transform_used = StickBreaking, shape = [1], testval = Vector [0]\<rparr>
   \<and> backward StickBreaking (Vector [0]) = Inr (Vector [1 / 2, 1 / 2])
   \<and> logp \<lparr>logp = (\<lambda>x. Inr (tmap (\<lambda>t. 3 * t) x)), default' = Inr (Vector [1 / 2, 1 / 2])\<rparr>
        (Vector [1 / 2, 1 / 2]) = Inr (Vector [3 / 2, 3 / 2])
   \<and> jacobian_det StickBreaking (Vector [0]) = Inr (Scalar (- 2 * ln 2))
   \<and> broadcastable (Vector [3 / 2, 3 / 2]) (Scalar (- 2 * ln 2))
   \<and> TransformedDistribution_logp
       \<lparr>dist' = \<lparr>logp = (\<lambda>x. Inr (tmap (\<lambda>t. 3 * t) x)),
                   default' = Inr (Vector [1 / 2, 1 / 2])\<rparr>,
        transform_used = StickBreaking, shape = [1], testval = Vector [0]\<rparr> (Vector [0])
     = Inr (Vector [3 / 2 - 2 * ln 2, 3 / 2 - 2 * ln 2])"
proof -
  let ?d = "\<lparr>logp = (\<lambda>x. Inr (tmap (\<lambda>t. 3 * t) x)), default' = Inr (Vector [1 / 2, 1 / 2])\<rparr>"
  let ?self = "\<lparr>dist' = ?d, transform_used = StickBreaking, shape = [1], testval = Vector [0]\<rparr>"
  let ?free = "\<lambda>d. bind_result (default' d) (\<lambda>x0. bind_result (logp d x0) (\<lambda>u. Inr x0))"
  let ?l = "Vector [3 / 2, 3 / 2]"
  let ?j = "Scalar (- 2 * ln 2)"
  have h: "TransformedDistribution_init ?free (\<lambda>s tv. Inr ()) ?d StickBreaking = Inr ?self"
    by (simp add: TransformedDistribution_init_def StickBreaking_def StickBreaking_forward_half
        del: StickBreaking_forward.simps)
  have hs: "backward StickBreaking (Vector [0]) = Inr (Vector [1 / 2, 1 / 2])
      \<and> logp ?d (Vector [1 / 2, 1 / 2]) = Inr ?l
      \<and> jacobian_det StickBreaking (Vector [0]) = Inr ?j
      \<and> broadcastable ?l ?j"
    by (simp add: StickBreaking_def StickBreaking_backward_zero StickBreaking_jacobian_det_zero
        broadcastable_def
        del: StickBreaking_backward.simps StickBreaking_jacobian_det.simps)
  obtain r where r: "TransformedDistribution_logp ?self (Vector [0]) = Inr r"
    and rk: "rank r = max (rank ?l) (rank ?j)"
    and len: "length (entries r) = 2"
    and nth: "\<forall>i<length (entries r). entries r ! i = broadcast_entry ?l i + broadcast_entry ?j i"
    using TransformedDistribution_logp_formula [OF h, of "Vector [0]" "Vector [1 / 2, 1 / 2]" ?l ?j] hs
    by auto
  obtain v where v: "r = Vector v" using rk by (cases r) simp_all
  have "length v = 2" using len v by simp
  moreover have "v ! 0 = 3 / 2 - 2 * ln 2" "v ! 1 = 3 / 2 - 2 * ln 2"
    using nth len v by (simp_all add: broadcast_entry_def)
  ultimately have "v = [3 / 2 - 2 * ln 2, 3 / 2 - 2 * ln 2]"
    by (intro nth_equalityI) (auto simp add: less_Suc_eq numeral_2_eq_2)
  then show ?thesis using h hs r v by simp
qed

subsection \<open>C2: round trips\<close>

text \<open>
  Claim C2 says that for every transform of the catalogue but \<^verbatim>\<open>SumTo1\<close>,
  \<^verbatim>\<open>Circular\<close> expressly included, \<open>backward (forward x) = x\<close> and
  \<open>forward (backward y) = y\<close> on the whole domain and range.  \<^verbatim>\<open>Circular\<close> maps the
  reals to the reals, its forward map is the identity and its backward map wraps into
  \<open>(-\<pi>, \<pi>]\<close>; at \<open>2\<pi>\<close> both round trips return \<open>0\<close>.
\<close>

theorem round_trip_counterexample:
  "Circular_backward (Circular_forward (Scalar (2 * pi))) \<noteq> Scalar (2 * pi) \<and>
   Circular_forward (Circular_backward (Scalar (2 * pi))) \<noteq> Scalar (2 * pi)"
  using pi_gt_zero
  by (simp add: Circular_backward_def Circular_forward_def arctan2_def)

text \<open>
  Claim C2, amended.  In exact real arithmetic: for \<^verbatim>\<open>Log\<close> on positive entries,
  \<^verbatim>\<open>LogOdds\<close> on entries in \<open>(0, 1)\<close>, \<^verbatim>\<open>Interval(a, b)\<close> with \<open>a < b\<close> on
  entries in \<open>(a, b)\<close>, and \<^verbatim>\<open>StickBreaking\<close> on the interior of the simplex of
  dimension \<open>K \<ge> 2\<close>, \<open>backward (forward x) = x\<close>; for every \<open>y\<close> of their ranges
  (for \<^verbatim>\<open>StickBreaking\<close> every non-empty real vector), \<open>forward (backward y) = y\<close>.
  For \<^verbatim>\<open>Circular\<close> each round trip returns its input exactly when every entry of
  the input lies in \<open>(-\<pi>, \<pi>]\<close>.
\<close>

theorem round_trip:
  "(all_entries (\<lambda>t. 0 < t) x\<^sub>1 \<longrightarrow> Log_backward (Log_forward x\<^sub>1) = x\<^sub>1)
   \<and> Log_forward (Log_backward y) = y
   \<and> (all_entries (\<lambda>t. 0 < t \<and> t < 1) x\<^sub>2 \<longrightarrow> LogOdds_backward (LogOdds_forward x\<^sub>2) = x\<^sub>2)
   \<and> LogOdds_forward (LogOdds_backward y) = y
   \<and> (a < b \<and> all_entries (\<lambda>t. a < t \<and> t < b) x\<^sub>3
        \<longrightarrow> Interval_backward a b (Interval_forward a b x\<^sub>3) = x\<^sub>3)
   \<and> (a < b \<longrightarrow> Interval_forward a b (Interval_backward a b y) = y)
   \<and> (simplex_interior v \<and> 2 \<le> length v
        \<longrightarrow> bind_result (StickBreaking_forward (Vector v)) StickBreaking_backward = Inr (Vector v))
   \<and> (w \<noteq> []
        \<longrightarrow> bind_result (StickBreaking_backward (Vector w)) StickBreaking_forward = Inr (Vector w))
   \<and> (Circular_backward (Circular_forward y) = y
        \<longleftrightarrow> all_entries (\<lambda>t. - pi < t \<and> t \<le> pi) y)
   \<and> (Circular_forward (Circular_backward y) = y
        \<longleftrightarrow> all_entries (\<lambda>t. - pi < t \<and> t \<le> pi) y)"
proof (intro conjI impI)
  show "Log_forward (Log_backward y) = y" by (rule Log_round_trip)
  show "LogOdds_forward (LogOdds_backward y) = y" by (rule LogOdds_round_trip)
  show "Circular_backward (Circular_forward y) = y
        \<longleftrightarrow> all_entries (\<lambda>t. - pi < t \<and> t \<le> pi) y" by (rule Circular_round_trip_iff)
  show "Circular_forward (Circular_backward y) = y
        \<longleftrightarrow> all_entries (\<lambda>t. - pi < t \<and> t \<le> pi) y" by (rule Circular_round_trip_iff)
next
  assume "all_entries (\<lambda>t. 0 < t) x\<^sub>1"
  then show "Log_backward (Log_forward x\<^sub>1) = x\<^sub>1" by (rule Log_round_trip)
next
  assume "all_entries (\<lambda>t. 0 < t \<and> t < 1) x\<^sub>2"
  then show "LogOdds_backward (LogOdds_forward x\<^sub>2) = x\<^sub>2" by (rule LogOdds_round_trip)
next
  assume "a < b \<and> all_entries (\<lambda>t. a < t \<and> t < b) x\<^sub>3"
  then show "Interval_backward a b (Interval_forward a b x\<^sub>3) = x\<^sub>3"
    by (intro Interval_round_trip) simp
next
  assume "a < b"
  then show "Interval_forward a b (Interval_backward a b y) = y"
    by (intro Interval_round_trip) simp
next
  assume "simplex_interior v \<and> 2 \<le> length v"
  then show "bind_result (StickBreaking_forward (Vector v)) StickBreaking_backward = Inr (Vector v)"
    by (intro StickBreaking_backward_forward) simp_all
next
  assume "w \<noteq> []"
  then show "bind_result (StickBreaking_backward (Vector w)) StickBreaking_forward = Inr (Vector w)"
    by (rule StickBreaking_forward_backward)
qed

theorem round_trip_witness:
  "all_entries (\<lambda>t. 0 < t) (Vector [1, 2])
   \<and> Log_backward (Log_forward (Vector [1, 2])) = Vector [1, 2]
   \<and> Log_forward (Log_backward (Scalar 1)) = Scalar 1
   \<and> all_entries (\<lambda>t. 0 < t \<and> t < 1) (Vector [1 / 2, 1 / 3])
   \<and> LogOdds_backward (LogOdds_forward (Vector [1 / 2, 1 / 3])) = Vector [1 / 2, 1 / 3]
   \<and> LogOdds_forward (LogOdds_backward (Scalar 1)) = Scalar 1
   \<and> (2::real) < 5 \<and> all_entries (\<lambda>t. 2 < t \<and> t < 5) (Vector [3, 4])
   \<and> Interval_backward 2 5 (Interval_forward 2 5 (Vector [3, 4])) = Vector [3, 4]
   \<and> Interval_forward 2 5 (Interval_backward 2 5 (Scalar 1)) = Scalar 1
   \<and> simplex_interior [1 / 4, 1 / 4, 1 / 2] \<and> 2 \<le> length [1 / 4, 1 / 4, 1 / 2 :: real]
   \<and> bind_result (StickBreaking_forward (Vector [1 / 4, 1 / 4, 1 / 2])) StickBreaking_backward
       = Inr (Vector [1 / 4, 1 / 4, 1 / 2])
   \<and> [0, 7] \<noteq> ([] :: real list)
   \<and> bind_result (StickBreaking_backward (Vector [0, 7])) StickBreaking_forward
       = Inr (Vector [0, 7])
   \<and> all_entries (\<lambda>t. - pi < t \<and> t \<le> pi) (Scalar 1)
   \<and> Circular_backward (Circular_forward (Scalar 1)) = Scalar 1
   \<and> Circular_forward (Circular_backward (Scalar 1)) = Scalar 1"
proof -
  have pi1: "1 \<le> pi" "- pi < 1" using pi_ge_two by linarith+
  have h1: "all_entries (\<lambda>t. 0 < t) (Vector [1, 2])" by (simp add: all_entries_def)
  have h2: "all_entries (\<lambda>t. 0 < t \<and> t < 1) (Vector [1 / 2, 1 / 3])"
    by (simp add: all_entries_def)
  have h3: "(2::real) < 5 \<and> all_entries (\<lambda>t. 2 < t \<and> t < 5) (Vector [3, 4])"
    by (simp add: all_entries_def)
  have h4: "simplex_interior [1 / 4, 1 / 4, 1 / 2] \<and> 2 \<le> length [1 / 4, 1 / 4, 1 / 2 :: real]"
    by (simp add: simplex_interior_def)
  have h5: "[0, 7] \<noteq> ([] :: real list)" by simp
  have h6: "all_entries (\<lambda>t. - pi < t \<and> t \<le> pi) (Scalar 1)"
    using pi1 by (simp add: all_entries_def)
  show ?thesis
    using h1 h2 h3 h4 h5 h6
      round_trip [of "Vector [1, 2]" "Scalar 1" "Vector [1 / 2, 1 / 3]" 2 5 "Vector [3, 4]"
        "[1 / 4, 1 / 4, 1 / 2]" "[0, 7]"]
    by (simp del: StickBreaking_forward.simps StickBreaking_backward.simps)
qed

subsection \<open>C3: the closed form of the stick-breaking Jacobian\<close>

text \<open>
  Claim C3.  For every real vector \<open>y\<close> of length \<open>K - 1\<close> (the empty vector
  included), \<^verbatim>\<open>StickBreaking.jacobian_det(y)\<close> returns the closed form of the
  specification: the sum over \<open>k = 0, \<dots>, K - 2\<close> of
  \<open>log S\<^sub>k - log (1 + exp z'\<^sub>k) - log (1 + exp (- z'\<^sub>k))\<close>, where
  \<open>z'\<^sub>k = y\<^sub>k - log (K - 1 - k)\<close> and \<open>S\<^sub>k\<close> is the product of the factors
  \<open>1 - sigmoid z'\<^sub>j\<close> for \<open>j < k\<close>, so that \<open>S\<^sub>0 = 1\<close>.
\<close>

theorem StickBreaking_jacobian_det_closed_form:
  "StickBreaking_jacobian_det (Vector y) = Inr (Scalar (StickBreaking_jacobian_closed_form y))"
proof (cases y)
  case Nil
  then show ?thesis by (simp only: StickBreaking_jacobian_det_Nil)
next
  case (Cons a ys)
  then have "y \<noteq> []" by simp
  then show ?thesis by (rule StickBreaking_jacobian_det_nonempty)
qed

subsection \<open>C4: stick-breaking on the simplex\<close>

text \<open>
  Claim C4 says that for every \<open>K\<close>-vector \<open>x\<close> in the interior of the simplex,
  \<^verbatim>\<open>StickBreaking.forward(x)\<close> has length \<open>K - 1\<close> and
  \<^verbatim>\<open>backward(forward(x))\<close> reconstructs \<open>x\<close> and sums to one.  For \<open>K \<ge> 2\<close> this
  is \<open>StickBreaking_backward_forward\<close> above.  At the one-point simplex \<open>x = [1]\<close>
  (\<open>K = 1\<close>) the forward map returns the empty vector, of length \<open>K - 1 = 0\<close>, and
  the backward map returns the empty vector again, because
  \<^verbatim>\<open>tt.ones(y[:1].shape)\<close> is empty when \<open>y\<close> is: the point \<open>[1]\<close> is not
  reconstructed.
\<close>

theorem StickBreaking_single_point:
  "simplex_interior [1]
   \<and> StickBreaking_forward (Vector [1]) = Inr (Vector [])
   \<and> bind_result (StickBreaking_forward (Vector [1])) StickBreaking_backward = Inr (Vector [])"
  by (simp add: simplex_interior_def ones_like_head_def cumprod_def cumsum_def eq_share_def
      inverse_logit_def logit_def)

subsection \<open>C5: the default Jacobian against the analytic derivative\<close>

text \<open>
  Claim C5.  Let the differentiation engine meet its contract at the cost
  \<^verbatim>\<open>sum(backward(y))\<close> and the point \<open>y\<close>.  Then the default
  \<^verbatim>\<open>ElemwiseTransform.jacobian_det\<close> of an entrywise backward map \<open>f\<close> whose
  derivative \<open>f'\<close> exists and is not zero at the entries of \<open>y\<close> is, entry by entry,
  \<open>log |f' y\<^sub>i|\<close>.  In particular the sigmoid has the derivative
  \<open>sigmoid t (1 - sigmoid t)\<close>, the backward map of \<^verbatim>\<open>Interval(a, b)\<close> has the
  derivative \<open>(b - a) exp t / (1 + exp t)\<^sup>2\<close>, and the default Jacobians of
  \<^verbatim>\<open>LogOdds\<close> and of \<^verbatim>\<open>Interval(a, b)\<close> with \<open>a \<noteq> b\<close> are the logarithms of
  the absolute values of these derivatives at every \<open>y\<close>.
\<close>

theorem elemwise_jacobian_det_closed_form:
  "(differentiates g\<^sub>1 (\<lambda>v. tsum (tmap f v)) y
      \<and> (\<forall>t\<in>set (entries y). (f has_real_derivative f' t) (at t) \<and> f' t \<noteq> 0)
      \<longrightarrow> ElemwiseTransform_jacobian_det g\<^sub>1 (tmap f) y = Inr (tmap (\<lambda>t. ln \<bar>f' t\<bar>) y))
   \<and> ((\<lambda>s. tsum (LogOdds_backward (Scalar s))) has_real_derivative LogOdds_backward_deriv t)
        (at t)
   \<and> LogOdds_backward_deriv t \<noteq> 0
   \<and> (differentiates g\<^sub>2 (\<lambda>v. tsum (LogOdds_backward v)) y
      \<longrightarrow> jacobian_det (LogOdds g\<^sub>2) y = Inr (tmap (\<lambda>t. ln \<bar>LogOdds_backward_deriv t\<bar>) y))
   \<and> ((\<lambda>s. tsum (Interval_backward a b (Scalar s))) has_real_derivative
          Interval_backward_deriv a b t) (at t)
   \<and> (a \<noteq> b \<longrightarrow> Interval_backward_deriv a b t \<noteq> 0)
   \<and> (a \<noteq> b \<and> differentiates g\<^sub>3 (\<lambda>v. tsum (Interval_backward a b v)) y
      \<longrightarrow> jacobian_det (Interval a b g\<^sub>3) y
            = Inr (tmap (\<lambda>t. ln \<bar>Interval_backward_deriv a b t\<bar>) y))"
proof (intro conjI impI)
  assume "differentiates g\<^sub>1 (\<lambda>v. tsum (tmap f v)) y
      \<and> (\<forall>t\<in>set (entries y). (f has_real_derivative f' t) (at t) \<and> f' t \<noteq> 0)"
  then show "ElemwiseTransform_jacobian_det g\<^sub>1 (tmap f) y = Inr (tmap (\<lambda>t. ln \<bar>f' t\<bar>) y)"
    by (intro ElemwiseTransform_jacobian_det_tmap) simp_all
next
  show "((\<lambda>s. tsum (LogOdds_backward (Scalar s))) has_real_derivative LogOdds_backward_deriv t)
        (at t)"
    unfolding LogOdds_backward_fn tsum_Scalar_fn by (rule sigmoid_has_derivative)
next
  show "LogOdds_backward_deriv t \<noteq> 0" using LogOdds_backward_deriv_pos [of t] by simp
next
  assume "differentiates g\<^sub>2 (\<lambda>v. tsum (LogOdds_backward v)) y"
  then have "differentiates g\<^sub>2 (\<lambda>v. tsum (tmap sigmoid v)) y"
    by (simp only: LogOdds_backward_fn)
  then have "ElemwiseTransform_jacobian_det g\<^sub>2 (tmap sigmoid) y
             = Inr (tmap (\<lambda>t. ln \<bar>LogOdds_backward_deriv t\<bar>) y)"
    by (rule ElemwiseTransform_jacobian_det_tmap) (simp add: sigmoid_has_derivative)
  then show "jacobian_det (LogOdds g\<^sub>2) y = Inr (tmap (\<lambda>t. ln \<bar>LogOdds_backward_deriv t\<bar>) y)"
    by (simp add: LogOdds_def LogOdds_backward_fn)
next
  show "((\<lambda>s. tsum (Interval_backward a b (Scalar s))) has_real_derivative
          Interval_backward_deriv a b t) (at t)"
    unfolding Interval_backward_fn tsum_Scalar_fn by (rule Interval_has_derivative)
next
  assume "a \<noteq> b"
  then show "Interval_backward_deriv a b t \<noteq> 0" by (rule Interval_backward_deriv_nonzero)
next
  assume "a \<noteq> b \<and> differentiates g\<^sub>3 (\<lambda>v. tsum (Interval_backward a b v)) y"
  then have "differentiates g\<^sub>3 (\<lambda>v. tsum (tmap (\<lambda>t. (b - a) * exp t / (1 + exp t) + a) v)) y"
    by (simp only: Interval_backward_fn)
  then have "ElemwiseTransform_jacobian_det g\<^sub>3 (tmap (\<lambda>t. (b - a) * exp t / (1 + exp t) + a)) y
             = Inr (tmap (\<lambda>t. ln \<bar>Interval_backward_deriv a b t\<bar>) y)"
    by (rule ElemwiseTransform_jacobian_det_tmap) (simp add: Interval_has_derivative)
  then show "jacobian_det (Interval a b g\<^sub>3) y
            = Inr (tmap (\<lambda>t. ln \<bar>Interval_backward_deriv a b t\<bar>) y)"
    by (simp add: Interval_def Interval_backward_fn)
qed

text \<open>An instance with the engines that return the analytic derivatives, at
  \<open>y = [0, 1]\<close>; the entrywise map of the first part is \<open>t\<^sup>2 + 3 t\<close>.\<close>

theorem elemwise_jacobian_det_closed_form_witness:
  "differentiates (\<lambda>c v. map (\<lambda>t. 2 * t + 3) (entries v))
       (\<lambda>v. tsum (tmap (\<lambda>t. t\<^sup>2 + 3 * t) v)) (Vector [0, 1])
   \<and> ElemwiseTransform_jacobian_det (\<lambda>c v. map (\<lambda>t. 2 * t + 3) (entries v))
        (tmap (\<lambda>t. t\<^sup>2 + 3 * t)) (Vector [0, 1]) = Inr (Vector [ln 3, ln 5])
   \<and> differentiates (\<lambda>c v. map LogOdds_backward_deriv (entries v))
       (\<lambda>v. tsum (LogOdds_backward v)) (Vector [0, 1])
   \<and> jacobian_det (LogOdds (\<lambda>c v. map LogOdds_backward_deriv (entries v))) (Vector [0, 1])
       = Inr (Vector [ln \<bar>LogOdds_backward_deriv 0\<bar>, ln \<bar>LogOdds_backward_deriv 1\<bar>])
   \<and> (2::real) \<noteq> 5
   \<and> differentiates (\<lambda>c v. map (Interval_backward_deriv 2 5) (entries v))
       (\<lambda>v. tsum (Interval_backward 2 5 v)) (Vector [0, 1])
   \<and> jacobian_det (Interval 2 5 (\<lambda>c v. map (Interval_backward_deriv 2 5) (entries v)))
         (Vector [0, 1])
       = Inr (Vector [ln \<bar>Interval_backward_deriv 2 5 0\<bar>, ln \<bar>Interval_backward_deriv 2 5 1\<bar>])"
proof -
  have h1: "differentiates (\<lambda>c v. map LogOdds_backward_deriv (entries v))
       (\<lambda>v. tsum (LogOdds_backward v)) (Vector [0, 1])"
    unfolding LogOdds_backward_fn
    by (rule elemwise_engine_differentiates) (simp add: sigmoid_has_derivative)
  have h2: "differentiates (\<lambda>c v. map (Interval_backward_deriv 2 5) (entries v))
       (\<lambda>v. tsum (Interval_backward 2 5 v)) (Vector [0, 1])"
    unfolding Interval_backward_fn
    by (rule elemwise_engine_differentiates) (intro ballI Interval_has_derivative)
  have d: "((\<lambda>t. t\<^sup>2 + 3 * t) has_real_derivative 2 * t + 3) (at t)" for t :: real
    by (auto intro!: derivative_eq_intros)
  have h0: "differentiates (\<lambda>c v. map (\<lambda>t. 2 * t + 3) (entries v))
       (\<lambda>v. tsum (tmap (\<lambda>t. t\<^sup>2 + 3 * t) v)) (Vector [0, 1])"
    by (rule elemwise_engine_differentiates) (simp add: d)
  have nz: "\<forall>t\<in>set (entries (Vector [0, 1])).
              ((\<lambda>t. t\<^sup>2 + 3 * t) has_real_derivative 2 * t + 3) (at t) \<and> 2 * t + 3 \<noteq> 0"
    using d by simp
  have two: "(2::real) \<noteq> 5" by simp
  show ?thesis
    using h0 h1 h2 nz two
      elemwise_jacobian_det_closed_form [of "\<lambda>c v. map (\<lambda>t. 2 * t + 3) (entries v)"
        "\<lambda>t. t\<^sup>2 + 3 * t" "Vector [0, 1]" "\<lambda>t. 2 * t + 3" 0
        "\<lambda>c v. map LogOdds_backward_deriv (entries v)" 2 5
        "\<lambda>c v. map (Interval_backward_deriv 2 5) (entries v)"]
    by simp
qed

subsection \<open>C6: the Jacobian of Log\<close>

text \<open>
  Claim C6.  For every real tensor \<open>y\<close>, the Jacobian term of the \<^verbatim>\<open>Log\<close>
  transform, computed by the default entrywise mechanism from
  \<open>backward y = exp y\<close> with an engine that meets its contract, is \<open>y\<close> itself.
\<close>

theorem Log_jacobian_det_identity:
  assumes "differentiates gradient (\<lambda>v. tsum (Log_backward v)) y"
  shows "jacobian_det (Log gradient) y = Inr y"
proof -
  have d: "\<forall>t\<in>set (entries y). (exp has_real_derivative exp t) (at t)"
    by (simp add: DERIV_exp)
  have "differentiates gradient (\<lambda>v. tsum (tmap exp v)) y"
    using assms by (simp only: Log_backward_fn)
  then have "ElemwiseTransform_jacobian_det gradient (tmap exp) y = Inr (tmap (\<lambda>t. ln \<bar>exp t\<bar>) y)"
    using d by (rule ElemwiseTransform_jacobian_det_tmap)
  moreover have "tmap (\<lambda>t. ln \<bar>exp t\<bar>) y = y"
    by (rule tmap_fixed [OF all_entries_True]) simp
  ultimately show ?thesis by (simp add: Log_def Log_backward_fn)
qed

theorem Log_jacobian_det_identity_witness:
  "differentiates (\<lambda>c v. map exp (entries v)) (\<lambda>v. tsum (Log_backward v)) (Vector [0, 1]) \<and>
   jacobian_det (Log (\<lambda>c v. map exp (entries v))) (Vector [0, 1]) = Inr (Vector [0, 1])"
proof -
  have "\<forall>t\<in>set (entries (Vector [0, 1])). (exp has_real_derivative exp t) (at t)"
    by (simp add: DERIV_exp)
  then have h: "differentiates (\<lambda>c v. map exp (entries v)) (\<lambda>v. tsum (Log_backward v)) (Vector [0, 1])"
    unfolding Log_backward_fn by (rule elemwise_engine_differentiates)
  show ?thesis using h Log_jacobian_det_identity [OF h] by simp
qed

subsection \<open>C7: the Jacobian of SumTo1\<close>

text \<open>
  Claim C7.  \<^verbatim>\<open>SumTo1.jacobian_det\<close> returns \<open>0\<close> for every input, although the
  forward map drops the last coordinate, so that vectors differing only there have the
  same image.
\<close>

theorem SumTo1_jacobian_det_zero:
  "SumTo1_jacobian_det x = Scalar 0
   \<and> jacobian_det SumTo1 x = Inr (Scalar 0)
   \<and> forward SumTo1 (Vector (xs @ [c])) = Inr (Vector xs)
   \<and> forward SumTo1 (Vector (xs @ [c])) = forward SumTo1 (Vector (xs @ [c + 1]))"
  by (simp add: SumTo1_jacobian_det_def SumTo1_def)

subsection \<open>C8: the wrap of Circular\<close>

text \<open>
  Claim C8.  \<^verbatim>\<open>Circular.backward(y) = arctan2(sin y, cos y)\<close> wraps its input into
  \<open>(-\<pi>, \<pi>]\<close>: every entry of the result lies in that interval and differs from the
  entry of the input by a whole multiple of \<open>2\<pi>\<close>; in particular
  \<open>backward (3\<pi>) = \<pi>\<close> and \<open>backward 0 = 0\<close>.
\<close>

theorem Circular_backward_wraps:
  "all_entries (\<lambda>t. - pi < t \<and> t \<le> pi) (Circular_backward y)
   \<and> list_all2 (\<lambda>r t. \<exists>k::int. r = t + 2 * pi * real_of_int k)
        (entries (Circular_backward y)) (entries y)
   \<and> Circular_backward (Scalar (3 * pi)) = Scalar pi
   \<and> Circular_backward (Scalar 0) = Scalar 0"
proof (intro conjI)
  show "all_entries (\<lambda>t. - pi < t \<and> t \<le> pi) (Circular_backward y)"
    unfolding Circular_backward_def by (rule all_entries_tmap) (rule arctan2_range)
  show "list_all2 (\<lambda>r t. \<exists>k::int. r = t + 2 * pi * real_of_int k)
        (entries (Circular_backward y)) (entries y)"
    unfolding Circular_backward_def tmap_entries
    by (simp add: list_all2_map1 list_all2_same arctan2_sin_cos_wraps)
  show "Circular_backward (Scalar (3 * pi)) = Scalar pi"
    by (simp only: Circular_backward_def tmap.simps Circular_backward_3pi)
  show "Circular_backward (Scalar 0) = Scalar 0"
    by (simp add: Circular_backward_def arctan2_def)
qed

subsection \<open>C9: the backward maps onto the simplex\<close>

text \<open>
  Claim C9 says that for every real vector \<open>y\<close> the entries of
  \<^verbatim>\<open>SumTo1.backward(y)\<close> and of \<^verbatim>\<open>StickBreaking.backward(y)\<close> sum to one.  For
  \<^verbatim>\<open>SumTo1\<close> this is \<open>SumTo1_backward_sums_to_one\<close>, and for \<^verbatim>\<open>StickBreaking\<close>
  on a non-empty \<open>y\<close> it is \<open>StickBreaking_backward_sums_to_one\<close>.  At the empty
  vector \<^verbatim>\<open>StickBreaking.backward\<close> returns the empty vector, whose sum is zero,
  where \<^verbatim>\<open>SumTo1.backward\<close> returns \<open>[1]\<close>.
\<close>

theorem StickBreaking_backward_empty:
  "StickBreaking_backward (Vector []) = Inr (Vector [])
   \<and> sum_list ([] :: real list) = 0
   \<and> SumTo1_backward (Vector []) = Inr (Vector [1])"
  by (simp add: ones_like_head_def cumprod_def eq_share_def inverse_logit_def)

subsection \<open>C10: the ranges of the backward maps\<close>




end
